theory Spec2Isabelle
  imports Main "HOL-Library.AList"
begin

section \<open>JavaScript values\<close>

text \<open>
  The values that travel through the middleware layer: request objects, snapshots,
  operation records, error values. Objects are association lists in property order;
  \<open>JRef\<close> is an opaque reference to a host object (the agent, the backend, a transport
  stream). Numbers are integers here; no claim depends on floating point.
\<close>

datatype jsval =
    JUndefined
  | JNull
  | JBool bool
  | JNum int
  | JStr string
  | JRef string
  | JArr "jsval list"
  | JObj "(string \<times> jsval) list"

text \<open>The truthiness that \<^verbatim>\<open>if (v)\<close>, \<^verbatim>\<open>v ? a : b\<close> and \<^verbatim>\<open>a || b\<close> test.\<close>

fun truthy :: "jsval \<Rightarrow> bool" where
  "truthy JUndefined = False"
| "truthy JNull = False"
| "truthy (JBool b) = b"
| "truthy (JNum n) = (n \<noteq> 0)"
| "truthy (JStr s) = (s \<noteq> [])"
| "truthy (JRef r) = True"
| "truthy (JArr xs) = True"
| "truthy (JObj kvs) = True"

text \<open>Property read \<^verbatim>\<open>o[k]\<close>: \<^verbatim>\<open>undefined\<close> when the property is absent.\<close>

fun get_prop :: "jsval \<Rightarrow> string \<Rightarrow> jsval" where
  "get_prop (JObj kvs) k = (case map_of kvs k of None \<Rightarrow> JUndefined | Some v \<Rightarrow> v)"
| "get_prop v k = JUndefined"

text \<open>
  Property write \<^verbatim>\<open>o[k] = v\<close>: an existing property keeps its place, a new one goes
  last. A write to a primitive has no effect. (On \<^verbatim>\<open>null\<close> and \<^verbatim>\<open>undefined\<close> the
  runtime throws; where the code can meet them, in \<^verbatim>\<open>submit\<close>, the throw is written
  out.)
\<close>

fun set_prop :: "jsval \<Rightarrow> string \<Rightarrow> jsval \<Rightarrow> jsval" where
  "set_prop (JObj kvs) k v = JObj (AList.update k v kvs)"
| "set_prop w k v = w"

text \<open>Indexing \<^verbatim>\<open>a[0]\<close> on an array; \<^verbatim>\<open>undefined\<close> past the end or on a non-array.\<close>

fun index0 :: "jsval \<Rightarrow> jsval" where
  "index0 (JArr (x # xs)) = x"
| "index0 v = JUndefined"

text \<open>
  The \<^verbatim>\<open>.length\<close> the code reads in \<^verbatim>\<open>requests[cName].length\<close>: the element count
  of an array, the size of a string, \<^verbatim>\<open>undefined\<close> on anything else.
\<close>

fun js_length :: "jsval \<Rightarrow> jsval" where
  "js_length (JArr xs) = JNum (int (length xs))"
| "js_length (JStr s) = JNum (int (length s))"
| "js_length v = JUndefined"

text \<open>
  The properties a \<^verbatim>\<open>for (k in o)\<close> loop visits, in order, with their values. The
  maps the code loops over are plain objects; the index keys of an array or a string
  are not modelled.
\<close>

fun own_props :: "jsval \<Rightarrow> (string \<times> jsval) list" where
  "own_props (JObj kvs) = kvs"
| "own_props v = []"

section \<open>Continuation signals\<close>

text \<open>
  A middleware step or a filter is handed a continuation (\<^verbatim>\<open>next\<close>). What it does with
  it is the step's signal: it calls \<^verbatim>\<open>next(err)\<close> (with \<^verbatim>\<open>next()\<close> being
  \<open>Next JUndefined\<close>), or it never calls it.
\<close>

datatype signal = Next jsval | NoCall

section \<open>async.eachSeries\<close>

text \<open>
  \<^verbatim>\<open>async.eachSeries(arr, iterator, callback)\<close> of the async library: the iterator runs
  on one element at a time; a truthy error reaches the final callback at once and
  nothing further runs; after the last element (or on an empty array) the final
  callback is called with no argument. The iterator's effects on captured variables
  are the state \<open>s\<close>. The result is the final state and what the final callback
  received, \<open>None\<close> when an iterator never called back.
\<close>

fun eachSeries :: "'a list \<Rightarrow> ('a \<Rightarrow> 's \<Rightarrow> 's \<times> signal) \<Rightarrow> 's \<Rightarrow> 's \<times> jsval option" where
  "eachSeries [] iterator s = (s, Some JUndefined)"
| "eachSeries (x # xs) iterator s =
     (case iterator x s of
        (s', Next err) \<Rightarrow> if truthy err then (s', Some err) else eachSeries xs iterator s'
      | (s', NoCall) \<Rightarrow> (s', None))"

section \<open>Filter chains\<close>

text \<open>
  A filter is called as \<^verbatim>\<open>filter(collection, docName, data, next)\<close>. It may mutate
  \<open>data\<close> in place; the model returns the mutated value with the signal.
\<close>

type_synonym filter_fn = "jsval \<Rightarrow> jsval \<Rightarrow> jsval \<Rightarrow> jsval \<times> signal"

text \<open>
  The state of one run of a chain: the data object as mutated so far, and the filters
  invoked so far, in order.
\<close>

record filter_run =
  data :: jsval
  invoked :: "filter_fn list"

text \<open>What a \<^verbatim>\<open>callback(error, data)\<close> receives.\<close>

type_synonym cb2 = "jsval \<times> jsval"

text \<open>
  \<^verbatim>\<open>Middleware.prototype._runFilters\<close>. The iterator calls the filter on the shared
  data object; the final callback passes \<^verbatim>\<open>(error, error ? null : data)\<close> on.
\<close>

definition filter_iterator :: "jsval \<Rightarrow> jsval \<Rightarrow> filter_fn \<Rightarrow> filter_run \<Rightarrow> filter_run \<times> signal" where
  "filter_iterator collection docName f r =
     (case f collection docName (data r) of
        (d', sg) \<Rightarrow> (\<lparr>data = d', invoked = invoked r @ [f]\<rparr>, sg))"

definition runFilters :: "filter_fn list \<Rightarrow> jsval \<Rightarrow> jsval \<Rightarrow> jsval \<Rightarrow> filter_run \<times> cb2 option" where
  "runFilters filters collection docName d =
     (case eachSeries filters (filter_iterator collection docName) \<lparr>data = d, invoked = []\<rparr> of
        (r, res) \<Rightarrow>
          (r, map_option (\<lambda>error. (error, if truthy error then JNull else data r)) res))"

text \<open>
  What the filters make of the data when filter after filter succeeds: the in-place
  mutations, applied in order.
\<close>

fun mutated :: "filter_fn list \<Rightarrow> jsval \<Rightarrow> jsval \<Rightarrow> jsval \<Rightarrow> jsval" where
  "mutated [] collection docName d = d"
| "mutated (f # fs) collection docName d = mutated fs collection docName (fst (f collection docName d))"

text \<open>A filter succeeds on a value when it calls \<^verbatim>\<open>next\<close> with a falsy argument.\<close>

definition succeeds :: "filter_fn \<Rightarrow> jsval \<Rightarrow> jsval \<Rightarrow> jsval \<Rightarrow> bool" where
  "succeeds f collection docName d =
     (case snd (f collection docName d) of Next err \<Rightarrow> \<not> truthy err | NoCall \<Rightarrow> False)"

text \<open>A filter signals an error when it calls \<^verbatim>\<open>next\<close> with a truthy argument.\<close>

definition rejects :: "filter_fn \<Rightarrow> jsval \<Rightarrow> jsval \<Rightarrow> jsval \<Rightarrow> jsval \<Rightarrow> bool" where
  "rejects f collection docName d err =
     (snd (f collection docName d) = Next err \<and> truthy err)"

section \<open>The backend collaborator\<close>

text \<open>
  A live operation event source as the backend hands it out: the events it will emit,
  in order, and how many times its \<^verbatim>\<open>destroy()\<close> has been called.
\<close>

record op_stream =
  events :: "jsval list"
  destroyCalls :: nat

text \<open>The emitter of a live query: its initial \<^verbatim>\<open>data\<close> and its \<^verbatim>\<open>extra\<close>.\<close>

record emitter =
  em_data :: jsval
  em_extra :: jsval

text \<open>
  The backend is opaque. Each operation is given by what it passes to its completion
  callback, the error first. A backend that never calls back is not modelled: nothing
  would follow its call.
\<close>

record backend =
  be_fetch :: "jsval \<Rightarrow> jsval \<Rightarrow> jsval \<times> jsval"
  be_bulkFetch :: "jsval \<Rightarrow> jsval \<times> jsval"
  be_getOps :: "jsval \<Rightarrow> jsval \<Rightarrow> jsval \<Rightarrow> jsval \<Rightarrow> jsval \<times> jsval"
  be_subscribe :: "jsval \<Rightarrow> jsval \<Rightarrow> jsval \<Rightarrow> jsval \<times> op_stream"
  be_bulkSubscribe :: "jsval \<Rightarrow> jsval \<times> (string \<times> (string \<times> op_stream) list) list"
  be_fetchAndSubscribe :: "jsval \<Rightarrow> jsval \<Rightarrow> jsval \<times> jsval \<times> op_stream"
  be_submit :: "jsval \<Rightarrow> jsval \<Rightarrow> jsval \<Rightarrow> jsval \<Rightarrow> jsval \<times> jsval \<times> jsval \<times> jsval"
  be_queryFetch :: "jsval \<Rightarrow> jsval \<Rightarrow> jsval \<Rightarrow> jsval \<times> jsval \<times> jsval"
  be_query :: "jsval \<Rightarrow> jsval \<Rightarrow> jsval \<Rightarrow> jsval \<times> emitter"

section \<open>The middleware object\<close>

text \<open>
  A registered middleware is called on the request, which it may mutate in place.
  A function of one parameter (\<^verbatim>\<open>middleware.length === 1\<close>) is called as
  \<^verbatim>\<open>middleware(request)\<close> and the chain advances by itself; any other gets the
  continuation as its second argument.
\<close>

datatype mw_fn = Sync "jsval \<Rightarrow> jsval" | Async "jsval \<Rightarrow> jsval \<times> signal"

record middleware =
  backend :: backend
  methods :: "string \<rightharpoonup> mw_fn list"
  docFilters :: "filter_fn list"
  opFilters :: "filter_fn list"

text \<open>The constructor \<^verbatim>\<open>Middleware(backend)\<close>.\<close>

definition Middleware :: "backend \<Rightarrow> middleware" where
  "Middleware b = \<lparr>backend = b, methods = [[] \<mapsto> []], docFilters = [], opFilters = []\<rparr>"

text \<open>
  What the code throws: the usage error of \<^verbatim>\<open>_trigger\<close>, a \<^verbatim>\<open>TypeError\<close> of the
  runtime, or the error of \<^verbatim>\<open>use\<close> for the actions it refuses.
\<close>

datatype fault = UsageFault string | TypeError | NotImplemented

text \<open>
  The registry \<^verbatim>\<open>methods\<close> is a plain object, so a read \<^verbatim>\<open>this.methods[name]\<close> that
  finds no own key goes on to \<^verbatim>\<open>Object.prototype\<close>. These are the names it finds
  there; what it finds is a function (for \<^verbatim>\<open>__proto__\<close> the prototype object): truthy,
  and with neither \<^verbatim>\<open>concat\<close> nor \<^verbatim>\<open>push\<close>.
\<close>

definition inherited :: "string \<Rightarrow> bool" where
  "inherited name =
     (name \<in> set [''constructor'', ''toString'', ''toLocaleString'', ''valueOf'',
                   ''hasOwnProperty'', ''isPrototypeOf'', ''propertyIsEnumerable'',
                   ''__proto__'', ''__defineGetter__'', ''__defineSetter__'',
                   ''__lookupGetter__'', ''__lookupSetter__''])"


text \<open>\<^verbatim>\<open>Middleware.prototype.filter\<close> and \<^verbatim>\<open>filterOps\<close>.\<close>

definition filter_doc :: "middleware \<Rightarrow> filter_fn \<Rightarrow> middleware" where
  "filter_doc m fn = m\<lparr>docFilters := docFilters m @ [fn]\<rparr>"

definition filterOps :: "middleware \<Rightarrow> filter_fn \<Rightarrow> middleware" where
  "filterOps m fn = m\<lparr>opFilters := opFilters m @ [fn]\<rparr>"

definition runDocFilters :: "middleware \<Rightarrow> jsval \<Rightarrow> jsval \<Rightarrow> jsval \<Rightarrow> filter_run \<times> cb2 option" where
  "runDocFilters m collection docName d = runFilters (docFilters m) collection docName d"

definition runOpFilters :: "middleware \<Rightarrow> jsval \<Rightarrow> jsval \<Rightarrow> jsval \<Rightarrow> filter_run \<times> cb2 option" where
  "runOpFilters m collection docName ops = runFilters (opFilters m) collection docName ops"

section \<open>The dispatcher\<close>

text \<open>
  What the callback of \<^verbatim>\<open>runMethod\<close> receives: \<^verbatim>\<open>callback(err)\<close> or
  \<^verbatim>\<open>callback(null, backend, request)\<close>.
\<close>

datatype dispatch_result = CbErr jsval | CbOk backend jsval

text \<open>
  The result of a run of the chain: the middlewares that were called, in order, the
  request as they left it, and what the callback received (\<open>None\<close> when a middleware
  never called its continuation).
\<close>

type_synonym dispatch = "mw_fn list \<times> jsval \<times> dispatch_result option"

text \<open>
  The closure \<^verbatim>\<open>next\<close> of \<^verbatim>\<open>runMethod\<close>, on the middlewares still in the copied
  array.
\<close>

fun run_next :: "backend \<Rightarrow> mw_fn list \<Rightarrow> jsval \<Rightarrow> dispatch" where
  "run_next b [] request = ([], request, Some (CbOk b request))"
| "run_next b (Sync f # ms) request =
     (case run_next b ms (f request) of (called, r) \<Rightarrow> (Sync f # called, r))"
| "run_next b (Async f # ms) request =
     (case f request of
        (request', Next err) \<Rightarrow>
          if truthy err then ([Async f], request', Some (CbErr err))
          else (case run_next b ms request' of (called, r) \<Rightarrow> (Async f # called, r))
      | (request', NoCall) \<Rightarrow> ([Async f], request', None))"

text \<open>
  \<^verbatim>\<open>(this.methods[request.action] || []).concat(...)\<close>. The action of a request is the
  string that \<^verbatim>\<open>trigger\<close> stored. An own list is taken; a name that is neither an own
  key nor inherited gives \<^verbatim>\<open>[]\<close>; an inherited member is truthy, so it is taken in
  place of a list, and calling its \<^verbatim>\<open>concat\<close> throws before any middleware or the
  callback is called.
\<close>

fun action_list :: "(string \<rightharpoonup> mw_fn list) \<Rightarrow> jsval \<Rightarrow> fault + mw_fn list" where
  "action_list ms (JStr a) =
     (case ms a of
        Some l \<Rightarrow> Inr l
      | None \<Rightarrow> if inherited a then Inl TypeError else Inr [])"
| "action_list ms v = Inr []"

text \<open>
  \<^verbatim>\<open>this.methods['']\<close>: the list of the middlewares for every action. The constructor
  creates it and nothing removes it.
\<close>

definition global_list :: "(string \<rightharpoonup> mw_fn list) \<Rightarrow> mw_fn list" where
  "global_list ms = (case ms [] of None \<Rightarrow> [] | Some l \<Rightarrow> l)"

text \<open>\<^verbatim>\<open>Middleware.prototype.runMethod\<close>. \<open>Inl\<close> is the throw: nothing was called.\<close>

definition runMethod :: "middleware \<Rightarrow> jsval \<Rightarrow> fault + dispatch" where
  "runMethod m request =
     (case action_list (methods m) (get_prop request ''action'') of
        Inl f \<Rightarrow> Inl f
      | Inr l \<Rightarrow> Inr (run_next (backend m) (l @ global_list (methods m)) request))"

section \<open>Wrapped operation streams\<close>

text \<open>
  The stream \<^verbatim>\<open>wrapOpStream\<close> returns: a transform whose closure holds the
  collection, the document name and the source stream.
\<close>

record wrapped_stream =
  w_collection :: jsval
  w_docName :: jsval
  source :: op_stream

definition wrapOpStream :: "jsval \<Rightarrow> jsval \<Rightarrow> op_stream \<Rightarrow> wrapped_stream" where
  "wrapOpStream collection docName stream =
     \<lparr>w_collection = collection, w_docName = docName, source = stream\<rparr>"

text \<open>
  The \<^verbatim>\<open>_transform\<close> of the wrapper on one event of the source: the op filters run on
  the one-element array \<^verbatim>\<open>[data]\<close>, and \<^verbatim>\<open>err ? {error: err} : data[0]\<close> is pushed.
  The result is the value handed to \<^verbatim>\<open>passthrough.push\<close>; \<open>None\<close> when the filter
  chain never calls back, in which case nothing is pushed and the transform never
  takes the next event.
\<close>

definition transform :: "middleware \<Rightarrow> wrapped_stream \<Rightarrow> jsval \<Rightarrow> jsval option" where
  "transform m w d =
     (case snd (runOpFilters m (w_collection w) (w_docName w) (JArr [d])) of
        None \<Rightarrow> None
      | Some (err, d') \<Rightarrow> Some (if truthy err then JObj [(''error'', err)] else index0 d'))"

text \<open>
  \<^verbatim>\<open>stream.pipe(passthrough)\<close>: what the readable side of the wrapper forwards for the
  events of the source. A transform stream takes the events one at a time. A pushed
  value is forwarded, except \<^verbatim>\<open>null\<close>: \<^verbatim>\<open>push(null)\<close> ends the readable side, and
  whatever is pushed after the end is refused by the stream and not forwarded.
\<close>

fun piped :: "middleware \<Rightarrow> wrapped_stream \<Rightarrow> jsval list \<Rightarrow> jsval list" where
  "piped m w [] = []"
| "piped m w (e # es) =
     (case transform m w e of
        None \<Rightarrow> []
      | Some v \<Rightarrow> if v = JNull then [] else v # piped m w es)"

definition forwarded :: "middleware \<Rightarrow> wrapped_stream \<Rightarrow> jsval list" where
  "forwarded m w = piped m w (events (source w))"

text \<open>The \<^verbatim>\<open>destroy\<close> of the wrapper: \<^verbatim>\<open>stream.destroy()\<close> on the source.\<close>

definition destroyPassthrough :: "wrapped_stream \<Rightarrow> wrapped_stream" where
  "destroyPassthrough w =
     w\<lparr>source := (source w)\<lparr>destroyCalls := Suc (destroyCalls (source w))\<rparr>\<rparr>"

text \<open>\<^verbatim>\<open>destroy()\<close> called \<open>n\<close> times on the wrapper.\<close>

fun destroy_times :: "nat \<Rightarrow> wrapped_stream \<Rightarrow> wrapped_stream" where
  "destroy_times 0 w = w"
| "destroy_times (Suc n) w = destroy_times n (destroyPassthrough w)"

definition wrapOpStreams ::
  "(string \<times> (string \<times> op_stream) list) list \<Rightarrow> (string \<times> (string \<times> wrapped_stream) list) list" where
  "wrapOpStreams streams =
     map (\<lambda>(cName, docs).
            (cName, map (\<lambda>(docName, stream).
                           (docName, wrapOpStream (JStr cName) (JStr docName) stream)) docs))
         streams"

section \<open>Observable events\<close>

text \<open>What a caller's callback can be handed: a value, a wrapped stream, a map of them, an emitter.\<close>

datatype cbval =
    V jsval
  | WStream wrapped_stream
  | WStreams "(string \<times> (string \<times> wrapped_stream) list) list"
  | WEmitter emitter

datatype filter_kind = Doc | Op

text \<open>
  The trace of a run: a middleware was called; a backend operation was called, with its
  arguments; a filter pass (\<^verbatim>\<open>runDocFilters\<close> or \<^verbatim>\<open>runOpFilters\<close>) ran on
  \<open>(collection, docName, data)\<close> and called the listed filters; the caller's callback
  was called with the listed arguments.
\<close>

datatype event =
    MiddlewareCalled mw_fn
  | BackendCalled string "jsval list"
  | FilterPass filter_kind jsval jsval jsval "filter_fn list"
  | CallbackCalled "cbval list"

fun is_callback :: "event \<Rightarrow> bool" where
  "is_callback (CallbackCalled args) = True"
| "is_callback e = False"

fun is_backend_call :: "string \<Rightarrow> event \<Rightarrow> bool" where
  "is_backend_call name (BackendCalled n args) = (n = name)"
| "is_backend_call name e = False"

fun is_filter_pass :: "event \<Rightarrow> bool" where
  "is_filter_pass (FilterPass kind collection docName d fs) = True"
| "is_filter_pass e = False"

text \<open>
  A filter pass followed by \<open>callback\<close> on its result; nothing follows when the chain
  never calls back.
\<close>

definition filter_pass ::
  "filter_kind \<Rightarrow> filter_fn list \<Rightarrow> jsval \<Rightarrow> jsval \<Rightarrow> jsval \<Rightarrow> (cb2 \<Rightarrow> event list) \<Rightarrow> event list" where
  "filter_pass kind filters collection docName d callback =
     (case runFilters filters collection docName d of
        (r, res) \<Rightarrow>
          FilterPass kind collection docName d (invoked r) #
          (case res of None \<Rightarrow> [] | Some args \<Rightarrow> callback args))"

section \<open>Bulk document filtering\<close>

text \<open>
  \<^verbatim>\<open>runBulkDocFilters(data, callback)\<close> starts one doc-filter pass per document of the
  map \<open>collection \<rightarrow> docName \<rightarrow> snapshot\<close> and counts the passes still at work. The
  documents in the order of the two \<^verbatim>\<open>for ... in\<close> loops:
\<close>

definition bulk_docs :: "jsval \<Rightarrow> (string \<times> string \<times> jsval) list" where
  "bulk_docs d =
     concat (map (\<lambda>(cName, docs). map (\<lambda>(docName, snapshot). (cName, docName, snapshot)) (own_props docs))
                 (own_props d))"

text \<open>
  One invocation of \<^verbatim>\<open>runDocFilters\<close> per document: the pass as it shows in the trace,
  and what its callback receives (\<open>None\<close> when the pass never completes).
\<close>

definition invocations :: "middleware \<Rightarrow> jsval \<Rightarrow> (event \<times> cb2 option) list" where
  "invocations m d =
     map (\<lambda>(cName, docName, snapshot).
            (case runDocFilters m (JStr cName) (JStr docName) snapshot of
               (r, res) \<Rightarrow> (FilterPass Doc (JStr cName) (JStr docName) snapshot (invoked r), res)))
         (bulk_docs d)"

text \<open>The map once every pass has mutated its snapshot in place.\<close>

definition filtered_docs :: "middleware \<Rightarrow> string \<Rightarrow> jsval \<Rightarrow> jsval" where
  "filtered_docs m cName docs =
     (case docs of
        JObj kvs \<Rightarrow>
          JObj (map (\<lambda>(docName, snapshot).
                       (docName, data (fst (runDocFilters m (JStr cName) (JStr docName) snapshot)))) kvs)
      | v \<Rightarrow> v)"

definition filtered_bulk :: "middleware \<Rightarrow> jsval \<Rightarrow> jsval" where
  "filtered_bulk m d =
     (case d of
        JObj kvs \<Rightarrow> JObj (map (\<lambda>(cName, docs). (cName, filtered_docs m cName docs)) kvs)
      | v \<Rightarrow> v)"

text \<open>
  The variables of the closure: the counter \<^verbatim>\<open>work\<close>, whether \<^verbatim>\<open>callback\<close> is still
  set (it is nulled on the first error), how many passes the loop has started, and the
  trace.
\<close>

record bulk =
  work :: int
  cb_live :: bool
  launched :: nat
  btrace :: "event list"

text \<open>The closure \<^verbatim>\<open>done\<close>; \<open>d\<close> is the captured map.\<close>

definition done_step :: "jsval \<Rightarrow> bulk \<Rightarrow> bulk" where
  "done_step d s =
     (let s' = s\<lparr>work := work s - 1\<rparr> in
      if work s' = 0 \<and> cb_live s' then s'\<lparr>btrace := btrace s' @ [CallbackCalled [V JNull, V d]]\<rparr>
      else s')"

text \<open>The \<^verbatim>\<open>function(err)\<close> handed to each \<^verbatim>\<open>runDocFilters\<close>.\<close>

definition on_filtered :: "jsval \<Rightarrow> jsval \<Rightarrow> bulk \<Rightarrow> bulk" where
  "on_filtered d err s =
     done_step d
       (if truthy err \<and> cb_live s
        then s\<lparr>cb_live := False, btrace := btrace s @ [CallbackCalled [V err]]\<rparr>
        else s)"

text \<open>
  The passes complete in an order the filters decide: at once inside the loop, or any
  time later. A schedule lists what happens, in order: the loop starts the next pass
  (\<open>Launch\<close>), the pass started \<open>i\<close>-th completes (\<open>Finish i\<close>), or the loop is over and
  the final \<^verbatim>\<open>done()\<close> runs (\<open>LoopEnd\<close>).
\<close>

datatype bulk_step = Launch | Finish nat | LoopEnd

fun bulk_exec :: "(event \<times> cb2 option) list \<Rightarrow> jsval \<Rightarrow> bulk_step \<Rightarrow> bulk \<Rightarrow> bulk" where
  "bulk_exec invs d Launch s =
     (if launched s < length invs
      then s\<lparr>work := work s + 1, launched := Suc (launched s),
             btrace := btrace s @ [fst (invs ! launched s)]\<rparr>
      else s)"
| "bulk_exec invs d (Finish i) s =
     (if i < length invs
      then (case snd (invs ! i) of Some (err, x) \<Rightarrow> on_filtered d err s | None \<Rightarrow> s)
      else s)"
| "bulk_exec invs d LoopEnd s = done_step d s"

definition bulk_init :: bulk where
  "bulk_init = \<lparr>work = 1, cb_live = True, launched = 0, btrace = []\<rparr>"

definition bulk_run :: "(event \<times> cb2 option) list \<Rightarrow> jsval \<Rightarrow> bulk_step list \<Rightarrow> bulk \<Rightarrow> bulk" where
  "bulk_run invs d sched s = foldl (\<lambda>s st. bulk_exec invs d st s) s sched"

definition runBulkDocFilters :: "middleware \<Rightarrow> jsval \<Rightarrow> bulk_step list \<Rightarrow> event list" where
  "runBulkDocFilters m d sched =
     btrace (bulk_run (invocations m d) (filtered_bulk m d) sched bulk_init)"

text \<open>
  The schedules the code can produce, and their prefixes: the loop starts one pass per
  document and ends once; a pass completes at most once, after its start, and only if
  its chain calls back. The arguments count the passes started, list the passes
  completed, and tell whether the loop is over.
\<close>

fun valid_sched :: "(event \<times> cb2 option) list \<Rightarrow> nat \<Rightarrow> nat list \<Rightarrow> bool \<Rightarrow> bulk_step list \<Rightarrow> bool" where
  "valid_sched invs l fin e [] = True"
| "valid_sched invs l fin e (Launch # xs) =
     (\<not> e \<and> l < length invs \<and> valid_sched invs (Suc l) fin e xs)"
| "valid_sched invs l fin e (Finish i # xs) =
     (i < l \<and> i \<notin> set fin \<and> snd (invs ! i) \<noteq> None \<and> valid_sched invs l (i # fin) e xs)"
| "valid_sched invs l fin e (LoopEnd # xs) =
     (\<not> e \<and> l = length invs \<and> valid_sched invs l fin True xs)"

text \<open>The schedule of filters that call back at once: every pass completes inside the loop.\<close>

definition sync_sched :: "(event \<times> cb2 option) list \<Rightarrow> bulk_step list" where
  "sync_sched invs =
     concat (map (\<lambda>i. Launch # (if snd (invs ! i) = None then [] else [Finish i])) [0..<length invs])
     @ [LoopEnd]"

text \<open>The first error a schedule reports, and whether everything in it has completed.\<close>

fun first_error :: "(event \<times> cb2 option) list \<Rightarrow> bulk_step list \<Rightarrow> jsval option" where
  "first_error invs [] = None"
| "first_error invs (Finish i # xs) =
     (case snd (invs ! i) of
        Some (err, x) \<Rightarrow> if truthy err then Some err else first_error invs xs
      | None \<Rightarrow> first_error invs xs)"
| "first_error invs (st # xs) = first_error invs xs"

definition all_finished :: "(event \<times> cb2 option) list \<Rightarrow> bulk_step list \<Rightarrow> bool" where
  "all_finished invs sched =
     (LoopEnd \<in> set sched \<and> (\<forall>i<length invs. Finish i \<in> set sched))"

section \<open>async.each and query results\<close>

text \<open>
  \<^verbatim>\<open>async.each(arr, iterator, callback)\<close>: the iterator is started on every element;
  the first truthy error goes to the final callback, which is then replaced by a no-op;
  when as many iterators have succeeded as there are elements, the final callback is
  called with no argument. On an empty array it is called at once. The final callback
  acts on the state where it is called.
\<close>

fun each_loop ::
  "'a list \<Rightarrow> ('a \<Rightarrow> 's \<Rightarrow> 's \<times> signal) \<Rightarrow> (jsval \<Rightarrow> 's \<Rightarrow> 's) \<Rightarrow> nat \<Rightarrow> nat \<Rightarrow> bool \<Rightarrow> 's \<Rightarrow> 's" where
  "each_loop [] iterator callback len completed live s = s"
| "each_loop (x # xs) iterator callback len completed live s =
     (case iterator x s of
        (s', Next err) \<Rightarrow>
          if truthy err
          then each_loop xs iterator callback len completed False
                 (if live then callback err s' else s')
          else each_loop xs iterator callback len (Suc completed) live
                 (if live \<and> len \<le> Suc completed then callback JUndefined s' else s')
      | (s', NoCall) \<Rightarrow> each_loop xs iterator callback len completed live s')"

definition each :: "'a list \<Rightarrow> ('a \<Rightarrow> 's \<Rightarrow> 's \<times> signal) \<Rightarrow> (jsval \<Rightarrow> 's \<Rightarrow> 's) \<Rightarrow> 's \<Rightarrow> 's" where
  "each arr iterator callback s =
     (if arr = [] then callback JUndefined s
      else each_loop arr iterator callback (length arr) 0 True s)"

text \<open>
  The elements of a result list. The backend hands lists over; on \<^verbatim>\<open>null\<close> or
  \<^verbatim>\<open>undefined\<close> in their place \<^verbatim>\<open>async.each\<close> would throw, which is not modelled.
\<close>

fun items :: "jsval \<Rightarrow> jsval list" where
  "items (JArr xs) = xs"
| "items v = []"

text \<open>
  \<^verbatim>\<open>filterQueryResults(collection, results, callback)\<close>. The state is the result list,
  whose elements the passes mutate in place, and the trace. The iterator runs the doc
  filters on the \<open>i\<close>-th result under its \<^verbatim>\<open>docName\<close> property.
\<close>

definition query_iterator ::
  "middleware \<Rightarrow> jsval \<Rightarrow> nat \<Rightarrow> jsval list \<times> event list \<Rightarrow> (jsval list \<times> event list) \<times> signal" where
  "query_iterator m collection i s =
     (case s of (rs, tr) \<Rightarrow>
        (case runDocFilters m collection (get_prop (rs ! i) ''docName'') (rs ! i) of
           (r, res) \<Rightarrow>
             ((rs[i := data r],
               tr @ [FilterPass Doc collection (get_prop (rs ! i) ''docName'') (rs ! i) (invoked r)]),
              (case res of None \<Rightarrow> NoCall | Some (error, x) \<Rightarrow> Next error))))"

definition results_now :: "jsval \<Rightarrow> jsval list \<Rightarrow> jsval" where
  "results_now results rs = (case results of JArr xs \<Rightarrow> JArr rs | v \<Rightarrow> v)"

definition filterQueryResults ::
  "middleware \<Rightarrow> jsval \<Rightarrow> jsval \<Rightarrow> (cb2 \<Rightarrow> event list) \<Rightarrow> event list" where
  "filterQueryResults m collection results callback =
     snd (each [0..<length (items results)] (query_iterator m collection)
            (\<lambda>error (rs, tr). (rs, tr @ callback (error, results_now results rs)))
            (items results, []))"

section \<open>The user agent\<close>

text \<open>
  The callbacks the agent's operations hand to \<^verbatim>\<open>_trigger\<close>, one constructor per
  function expression, with the variables of the operation the function closes over.
\<close>

datatype cont =
    KConnect
  | KFetch jsval jsval
  | KBulkFetch jsval
  | KGetOps jsval jsval jsval jsval
  | KSubscribe jsval jsval jsval
  | KBulkSubscribe jsval
  | KFetchAndSubscribe1 jsval jsval
  | KFetchAndSubscribe2 jsval jsval
  | KSubmit jsval jsval jsval jsval
  | KAfterSubmit jsval jsval
  | KQueryFetch jsval jsval jsval
  | KQuery jsval jsval jsval

text \<open>
  What \<^verbatim>\<open>process.nextTick\<close> holds: \<^verbatim>\<open>self.runMethod(request, callback)\<close>, to run on a
  later turn.
\<close>

datatype task = RunMethod jsval cont

text \<open>
  The agent's flag \<^verbatim>\<open>_connectCalled\<close>, the queue of \<^verbatim>\<open>process.nextTick\<close> (first in,
  first out), and the trace so far.
\<close>

record world =
  connectCalled :: bool
  pending :: "task list"
  trace :: "event list"

text \<open>The constructor \<^verbatim>\<open>UserAgent(middleware)\<close>, in a process with nothing queued.\<close>

definition UserAgent :: world where
  "UserAgent = \<lparr>connectCalled = False, pending = [], trace = []\<rparr>"

text \<open>
  \<^verbatim>\<open>Middleware.prototype.trigger\<close>. Called without a request (the callback in its
  place), the request starts as \<^verbatim>\<open>{}\<close>. Nothing runs: the run of the chain is queued.
  The agent only ever passes an object literal or nothing as the request.
\<close>

definition build_request :: "jsval \<Rightarrow> string \<Rightarrow> jsval \<Rightarrow> jsval \<Rightarrow> jsval option \<Rightarrow> jsval" where
  "build_request agent action collection docName request_opt =
     (let request = (case request_opt of None \<Rightarrow> JObj [] | Some r \<Rightarrow> r);
          request = set_prop request ''agent'' agent;
          request = set_prop request ''action'' (JStr action);
          request = (if truthy collection then set_prop request ''collection'' collection else request);
          request = (if truthy docName then set_prop request ''docName'' docName else request)
      in set_prop request ''backend'' (JRef ''backend''))"

definition trigger ::
  "jsval \<Rightarrow> string \<Rightarrow> jsval \<Rightarrow> jsval \<Rightarrow> jsval option \<Rightarrow> cont \<Rightarrow> world \<Rightarrow> world" where
  "trigger agent action collection docName request_opt callback st =
     st\<lparr>pending := pending st @
           [RunMethod (build_request agent action collection docName request_opt) callback]\<rparr>"

text \<open>\<^verbatim>\<open>UserAgent.prototype._trigger\<close>. \<open>Inl\<close> is the throw: nothing was queued or called.\<close>

definition agent_trigger ::
  "world \<Rightarrow> string \<Rightarrow> jsval \<Rightarrow> jsval \<Rightarrow> jsval option \<Rightarrow> cont \<Rightarrow> fault + world" where
  "agent_trigger st action collection docName request_opt callback =
     (if action \<noteq> ''connect'' \<and> \<not> connectCalled st then Inl (UsageFault action)
      else Inr (trigger (JRef ''agent'') action collection docName request_opt callback st))"

subsection \<open>The operations, up to their return\<close>

definition connect :: "world \<Rightarrow> jsval \<Rightarrow> jsval \<Rightarrow> fault + world" where
  "connect st stream initialReq =
     agent_trigger st ''connect'' JNull JNull
       (Some (JObj [(''stream'', stream), (''initialReq'', initialReq)])) KConnect"

definition fetch :: "world \<Rightarrow> jsval \<Rightarrow> jsval \<Rightarrow> fault + world" where
  "fetch st collection docName =
     agent_trigger st ''fetch'' collection docName None (KFetch collection docName)"

definition bulkFetch :: "world \<Rightarrow> jsval \<Rightarrow> fault + world" where
  "bulkFetch st requests =
     agent_trigger st ''bulk fetch'' JNull JNull
       (Some (JObj [(''requests'', requests)])) (KBulkFetch requests)"

definition getOps :: "world \<Rightarrow> jsval \<Rightarrow> jsval \<Rightarrow> jsval \<Rightarrow> jsval \<Rightarrow> fault + world" where
  "getOps st collection docName start end =
     agent_trigger st ''get ops'' collection docName
       (Some (JObj [(''start'', start), (''end'', end)])) (KGetOps collection docName start end)"

definition subscribe :: "world \<Rightarrow> jsval \<Rightarrow> jsval \<Rightarrow> jsval \<Rightarrow> fault + world" where
  "subscribe st collection docName version =
     agent_trigger st ''subscribe'' collection docName
       (Some (JObj [(''version'', version)])) (KSubscribe collection docName version)"

definition bulkSubscribe :: "world \<Rightarrow> jsval \<Rightarrow> fault + world" where
  "bulkSubscribe st requests =
     agent_trigger st ''bulk subscribe'' JNull JNull
       (Some (JObj [(''requests'', requests)])) (KBulkSubscribe requests)"

definition fetchAndSubscribe :: "world \<Rightarrow> jsval \<Rightarrow> jsval \<Rightarrow> fault + world" where
  "fetchAndSubscribe st collection docName =
     agent_trigger st ''fetch'' collection docName None (KFetchAndSubscribe1 collection docName)"

text \<open>
  \<^verbatim>\<open>submit\<close> may be called without options, the callback in their place; the options
  are then \<^verbatim>\<open>{}\<close>.
\<close>

definition submit :: "world \<Rightarrow> jsval \<Rightarrow> jsval \<Rightarrow> jsval \<Rightarrow> jsval option \<Rightarrow> fault + world" where
  "submit st collection docName opData options_opt =
     (let options = (case options_opt of None \<Rightarrow> JObj [] | Some opts \<Rightarrow> opts) in
      agent_trigger st ''submit'' collection docName
        (Some (JObj [(''opData'', opData), (''channelPrefix'', JNull)]))
        (KSubmit collection docName opData options))"

definition queryFetch :: "world \<Rightarrow> jsval \<Rightarrow> jsval \<Rightarrow> jsval \<Rightarrow> fault + world" where
  "queryFetch st collection query options =
     agent_trigger st ''query'' collection JNull
       (Some (JObj [(''query'', query), (''fetch'', JBool True), (''options'', options)]))
       (KQueryFetch collection query options)"

definition query :: "world \<Rightarrow> jsval \<Rightarrow> jsval \<Rightarrow> jsval \<Rightarrow> fault + world" where
  "query st collection q options =
     agent_trigger st ''query'' collection JNull
       (Some (JObj [(''query'', q), (''options'', options)]))
       (KQuery collection q options)"

subsection \<open>The callbacks of the operations\<close>

text \<open>The first argument of the dispatcher's callback.\<close>

fun err_of :: "dispatch_result \<Rightarrow> jsval" where
  "err_of (CbErr err) = err"
| "err_of (CbOk b request) = JNull"

definition emit :: "event list \<Rightarrow> world \<Rightarrow> world" where
  "emit evs st = st\<lparr>trace := trace st @ evs\<rparr>"

text \<open>\<^verbatim>\<open>fetch\<close>: the names are read from the request again, then the backend, then the doc filters on a snapshot that exists.\<close>

definition fetch_cb :: "middleware \<Rightarrow> jsval \<Rightarrow> jsval \<Rightarrow> dispatch_result \<Rightarrow> event list" where
  "fetch_cb m collection docName res =
     (case res of
        CbErr err \<Rightarrow> [CallbackCalled [V err]]
      | CbOk be action \<Rightarrow>
          (let collection = get_prop action ''collection'';
               docName = get_prop action ''docName'' in
           case be_fetch be collection docName of
             (err, d) \<Rightarrow>
               BackendCalled ''fetch'' [collection, docName] #
               (if truthy err then [CallbackCalled [V err]]
                else if truthy d
                then filter_pass Doc (docFilters m) collection docName d
                       (\<lambda>(error, d'). [CallbackCalled [V error, V d']])
                else [CallbackCalled [V JNull, V d]])))"

text \<open>
  \<^verbatim>\<open>bulkFetchRequestsEmpty\<close>: \<^verbatim>\<open>requests[cName].length\<close> throws on \<^verbatim>\<open>null\<close> and
  \<^verbatim>\<open>undefined\<close>.
\<close>

fun requests_empty_loop :: "(string \<times> jsval) list \<Rightarrow> fault + bool" where
  "requests_empty_loop [] = Inr True"
| "requests_empty_loop ((cName, docNames) # rest) =
     (if docNames = JUndefined \<or> docNames = JNull then Inl TypeError
      else if truthy (js_length docNames) then Inr False
      else requests_empty_loop rest)"

definition bulkFetchRequestsEmpty :: "jsval \<Rightarrow> fault + bool" where
  "bulkFetchRequestsEmpty requests = requests_empty_loop (own_props requests)"

definition bulkFetch_cb :: "middleware \<Rightarrow> jsval \<Rightarrow> dispatch_result \<Rightarrow> fault + event list" where
  "bulkFetch_cb m requests res =
     (case res of
        CbErr err \<Rightarrow> Inr [CallbackCalled [V err]]
      | CbOk be action \<Rightarrow>
          (let requests = get_prop action ''requests'' in
           case bulkFetchRequestsEmpty requests of
             Inl f \<Rightarrow> Inl f
           | Inr True \<Rightarrow> Inr [CallbackCalled [V JNull, V (JObj [])]]
           | Inr False \<Rightarrow>
               (case be_bulkFetch be requests of
                  (err, d) \<Rightarrow>
                    Inr (BackendCalled ''bulkFetch'' [requests] #
                         (if truthy err then [CallbackCalled [V err]]
                          else runBulkDocFilters m d (sync_sched (invocations m d)))))))"

definition getOps_cb ::
  "middleware \<Rightarrow> jsval \<Rightarrow> jsval \<Rightarrow> jsval \<Rightarrow> jsval \<Rightarrow> dispatch_result \<Rightarrow> event list" where
  "getOps_cb m collection docName start end res =
     (case res of
        CbErr err \<Rightarrow> [CallbackCalled [V err]]
      | CbOk be action \<Rightarrow>
          (case be_getOps be (get_prop action ''collection'') (get_prop action ''docName'') start end of
             (err, results) \<Rightarrow>
               BackendCalled ''getOps''
                 [get_prop action ''collection'', get_prop action ''docName'', start, end] #
               (if truthy err then [CallbackCalled [V err]]
                else filter_pass Op (opFilters m) collection docName results
                       (\<lambda>(error, d'). [CallbackCalled [V error, V d']]))))"

definition subscribe_cb ::
  "middleware \<Rightarrow> jsval \<Rightarrow> jsval \<Rightarrow> jsval \<Rightarrow> dispatch_result \<Rightarrow> event list" where
  "subscribe_cb m collection docName version res =
     (case res of
        CbErr err \<Rightarrow> [CallbackCalled [V err]]
      | CbOk be action \<Rightarrow>
          (let collection = get_prop action ''collection'';
               docName = get_prop action ''docName'';
               version = get_prop action ''version'' in
           case be_subscribe be collection docName version of
             (err, stream) \<Rightarrow>
               [BackendCalled ''subscribe'' [collection, docName, version],
                CallbackCalled [V err, if truthy err then V JNull
                                       else WStream (wrapOpStream collection docName stream)]]))"

definition bulkSubscribe_cb :: "middleware \<Rightarrow> jsval \<Rightarrow> dispatch_result \<Rightarrow> event list" where
  "bulkSubscribe_cb m requests res =
     (case res of
        CbErr err \<Rightarrow> [CallbackCalled [V err]]
      | CbOk be action \<Rightarrow>
          (let requests = get_prop action ''requests'' in
           case be_bulkSubscribe be requests of
             (err, streams) \<Rightarrow>
               [BackendCalled ''bulkSubscribe'' [requests],
                CallbackCalled [V err, if truthy err then V JNull
                                       else WStreams (wrapOpStreams streams)]]))"

text \<open>\<^verbatim>\<open>fetchAndSubscribe\<close>: the callback of the second trigger.\<close>

definition fetchAndSubscribe_cb ::
  "middleware \<Rightarrow> jsval \<Rightarrow> jsval \<Rightarrow> dispatch_result \<Rightarrow> event list" where
  "fetchAndSubscribe_cb m collection docName res =
     (case res of
        CbErr err \<Rightarrow> [CallbackCalled [V err]]
      | CbOk be action \<Rightarrow>
          (let collection = get_prop action ''collection'';
               docName = get_prop action ''docName'' in
           case be_fetchAndSubscribe be (get_prop action ''collection'') (get_prop action ''docName'') of
             (err, d, stream) \<Rightarrow>
               BackendCalled ''fetchAndSubscribe''
                 [get_prop action ''collection'', get_prop action ''docName''] #
               (if truthy err then [CallbackCalled [V err]]
                else filter_pass Doc (docFilters m) collection docName d
                       (\<lambda>(err, d').
                          if truthy err then [CallbackCalled [V err]]
                          else [CallbackCalled
                                  [V JNull, V d', WStream (wrapOpStream collection docName stream)]]))))"

text \<open>
  \<^verbatim>\<open>queryFetch\<close>: collection and query are read from the request again; the options
  handed to the backend are the caller's object, not \<^verbatim>\<open>request.options\<close>. Values
  here have no identity: \<open>options\<close> is that object as the caller passed it. In the
  code the request refers to the same object, so an edit a middleware makes inside it
  (as opposed to assigning a new object to \<^verbatim>\<open>request.options\<close>) is seen by the
  backend; such in-place edits of an object the caller holds are not modelled, here
  and in \<^verbatim>\<open>query\<close>.
\<close>

definition queryFetch_cb ::
  "middleware \<Rightarrow> jsval \<Rightarrow> jsval \<Rightarrow> jsval \<Rightarrow> dispatch_result \<Rightarrow> event list" where
  "queryFetch_cb m collection q options res =
     (case res of
        CbErr err \<Rightarrow> [CallbackCalled [V err]]
      | CbOk be action \<Rightarrow>
          (let collection = get_prop action ''collection'';
               q = get_prop action ''query'' in
           case be_queryFetch be collection q options of
             (err, results, extra) \<Rightarrow>
               BackendCalled ''queryFetch'' [collection, q, options] #
               (if truthy err then [CallbackCalled [V err]]
                else if truthy results
                then filterQueryResults m collection results
                       (\<lambda>(err, results).
                          if truthy err then [CallbackCalled [V err]]
                          else [CallbackCalled [V JNull, V results, V extra]])
                else [CallbackCalled [V JNull, V results, V extra]])))"

text \<open>
  \<^verbatim>\<open>query\<close>, up to the callback that hands the wrapped emitter over. The forwarding of
  the later \<^verbatim>\<open>diff\<close> and \<^verbatim>\<open>extra\<close> events is not part of this model.
\<close>

definition query_cb ::
  "middleware \<Rightarrow> jsval \<Rightarrow> jsval \<Rightarrow> jsval \<Rightarrow> dispatch_result \<Rightarrow> event list" where
  "query_cb m collection q options res =
     (case res of
        CbErr err \<Rightarrow> [CallbackCalled [V err]]
      | CbOk be action \<Rightarrow>
          (let collection = get_prop action ''collection'';
               q = get_prop action ''query'' in
           case be_query be collection q options of
             (err, em) \<Rightarrow>
               BackendCalled ''query'' [collection, q, options] #
               (if truthy err then [CallbackCalled [V err]]
                else filterQueryResults m collection (em_data em)
                       (\<lambda>(err, d').
                          if truthy err then [CallbackCalled [V err]]
                          else [CallbackCalled [V JNull, WEmitter (em\<lparr>em_data := d'\<rparr>)]]))))"

text \<open>
  The callback of each trigger, applied to what the dispatcher hands it. \<^verbatim>\<open>connect\<close>
  sets the flag when there is no error; \<^verbatim>\<open>fetchAndSubscribe\<close> and \<^verbatim>\<open>submit\<close> trigger
  again from inside their callback.
\<close>

fun apply_cont :: "middleware \<Rightarrow> cont \<Rightarrow> dispatch_result \<Rightarrow> world \<Rightarrow> fault + world" where
  "apply_cont m KConnect res st =
     Inr (emit [CallbackCalled [V (err_of res)]]
            (if \<not> truthy (err_of res) then st\<lparr>connectCalled := True\<rparr> else st))"
| "apply_cont m (KFetch collection docName) res st =
     Inr (emit (fetch_cb m collection docName res) st)"
| "apply_cont m (KBulkFetch requests) res st =
     (case bulkFetch_cb m requests res of Inl f \<Rightarrow> Inl f | Inr evs \<Rightarrow> Inr (emit evs st))"
| "apply_cont m (KGetOps collection docName start end) res st =
     Inr (emit (getOps_cb m collection docName start end res) st)"
| "apply_cont m (KSubscribe collection docName version) res st =
     Inr (emit (subscribe_cb m collection docName version res) st)"
| "apply_cont m (KBulkSubscribe requests) res st =
     Inr (emit (bulkSubscribe_cb m requests res) st)"
| "apply_cont m (KFetchAndSubscribe1 collection docName) res st =
     (case res of
        CbErr err \<Rightarrow> Inr (emit [CallbackCalled [V err]] st)
      | CbOk be action \<Rightarrow>
          agent_trigger st ''subscribe'' (get_prop action ''collection'') (get_prop action ''docName'')
            None (KFetchAndSubscribe2 collection docName))"
| "apply_cont m (KFetchAndSubscribe2 collection docName) res st =
     Inr (emit (fetchAndSubscribe_cb m collection docName res) st)"
| "apply_cont m (KSubmit collection docName opData options) res st =
     (case res of
        CbErr err \<Rightarrow> Inr (emit [CallbackCalled [V err]] st)
      | CbOk be action \<Rightarrow>
          (let collection = get_prop action ''collection'';
               docName = get_prop action ''docName'';
               opData = get_prop action ''opData'' in
           if options = JUndefined \<or> options = JNull then Inl TypeError
           else
             (let options = set_prop options ''channelPrefix'' (get_prop action ''channelPrefix'') in
              case be_submit be collection docName opData options of
                (err, v, ops, snapshot) \<Rightarrow>
                  (let st1 = emit [BackendCalled ''submit'' [collection, docName, opData, options]] st in
                   if truthy err then Inr (emit [CallbackCalled [V err]] st1)
                   else agent_trigger st1 ''after submit'' collection docName
                          (Some (JObj [(''opData'', opData), (''snapshot'', snapshot)]))
                          (KAfterSubmit v ops)))))"
| "apply_cont m (KAfterSubmit v ops) res st =
     Inr (emit [CallbackCalled [V (err_of res), V v, V ops]] st)"
| "apply_cont m (KQueryFetch collection q options) res st =
     Inr (emit (queryFetch_cb m collection q options res) st)"
| "apply_cont m (KQuery collection q options) res st =
     Inr (emit (query_cb m collection q options res) st)"

section \<open>One turn of the event loop\<close>

text \<open>
  The oldest queued task runs: the chain of the request, then the callback on its
  result. When a middleware never calls its continuation, the callback is not called.
  What \<^verbatim>\<open>runMethod\<close> or the callback throws is thrown out of the turn.
\<close>

definition tick :: "middleware \<Rightarrow> world \<Rightarrow> fault + world" where
  "tick m st =
     (case pending st of
        [] \<Rightarrow> Inr st
      | RunMethod request callback # rest \<Rightarrow>
          (case runMethod m request of
             Inl f \<Rightarrow> Inl f
           | Inr (called, request', res) \<Rightarrow>
               (let st1 = emit (map MiddlewareCalled called) (st\<lparr>pending := rest\<rparr>) in
                case res of None \<Rightarrow> Inr st1 | Some r \<Rightarrow> apply_cont m callback r st1)))"

section \<open>Notions the statements use\<close>







text \<open>A filter that always calls its continuation.\<close>

definition responsive :: "filter_fn \<Rightarrow> bool" where
  "responsive f = (\<forall>collection docName d. snd (f collection docName d) \<noteq> NoCall)"

text \<open>
  The pass on an event of the stream does not hand \<^verbatim>\<open>null\<close> to \<^verbatim>\<open>push\<close>: the filters
  do not pass a batch with \<^verbatim>\<open>null\<close> in place of the operation.
\<close>

definition keeps_record :: "middleware \<Rightarrow> wrapped_stream \<Rightarrow> jsval \<Rightarrow> bool" where
  "keeps_record m w e = (transform m w e \<noteq> Some JNull)"

text \<open>The action stored in a request names an inherited member of the registry.\<close>

fun names_inherited :: "jsval \<Rightarrow> bool" where
  "names_inherited (JStr a) = inherited a"
| "names_inherited v = False"

text \<open>The call of an operation, then the next turn of the event loop.\<close>

definition then_tick :: "middleware \<Rightarrow> fault + world \<Rightarrow> fault + world" where
  "then_tick m r = (case r of Inl f \<Rightarrow> Inl f | Inr st \<Rightarrow> tick m st)"

text \<open>A request map of \<^verbatim>\<open>bulkFetch\<close>: every collection is mapped to a list of names.\<close>

fun is_list :: "jsval \<Rightarrow> bool" where
  "is_list (JArr xs) = True"
| "is_list v = False"

definition request_map :: "jsval \<Rightarrow> bool" where
  "request_map requests = (\<exists>kvs. requests = JObj kvs \<and> list_all (\<lambda>(cName, docNames). is_list docNames) kvs)"

definition all_lists_empty :: "jsval \<Rightarrow> bool" where
  "all_lists_empty requests = list_all (\<lambda>(cName, docNames). docNames = JArr []) (own_props requests)"

section \<open>A configuration for concrete runs\<close>

text \<open>
  The doc filter of the module's documentation: \<^verbatim>\<open>mario\<close> gets a greeting, any other
  document is refused.
\<close>

definition mario_filter :: filter_fn where
  "mario_filter collection docName d =
     (if docName = JStr ''mario''
      then (set_prop d ''greeting'' (JStr ''It'se me: Mario''), Next JUndefined)
      else (d, Next (JStr ''Document not found!'')))"

text \<open>An op filter that refuses a batch whose first operation is \<^verbatim>\<open>cheat\<close>.\<close>

definition cheat_filter :: filter_fn where
  "cheat_filter collection docName ops =
     (if get_prop (index0 ops) ''op'' = JStr ''cheat''
      then (ops, Next (JStr ''Not on my watch!''))
      else (ops, Next JUndefined))"

text \<open>
  An op filter that passes every batch but puts \<^verbatim>\<open>null\<close> in place of a \<^verbatim>\<open>cheat\<close>
  operation, and one that never calls its continuation.
\<close>

definition censor_filter :: filter_fn where
  "censor_filter collection docName ops =
     (if get_prop (index0 ops) ''op'' = JStr ''cheat''
      then (JArr [JNull], Next JUndefined)
      else (ops, Next JUndefined))"

definition silent_filter :: filter_fn where
  "silent_filter collection docName ops = (ops, NoCall)"

text \<open>A middleware that sends every request to another collection and moves the lower version bound.\<close>

definition redirect :: "jsval \<Rightarrow> jsval" where
  "redirect request = set_prop (set_prop request ''collection'' (JStr ''archive'')) ''start'' (JNum 5)"

text \<open>A middleware that refuses every request.\<close>

definition deny :: "jsval \<Rightarrow> jsval \<times> signal" where
  "deny request = (request, Next (JStr ''forbidden''))"

definition no_stream :: op_stream where
  "no_stream = \<lparr>events = [], destroyCalls = 0\<rparr>"

text \<open>A backend with two people; \<^verbatim>\<open>ghost\<close> has no snapshot.\<close>

definition demo_backend :: backend where
  "demo_backend =
     \<lparr>be_fetch = (\<lambda>collection docName.
         (JNull, if docName = JStr ''ghost'' then JNull else JObj [(''v'', JNum 1)])),
      be_bulkFetch = (\<lambda>requests.
         (JNull, JObj [(''people'', JObj [(''mario'', JObj [(''v'', JNum 1)]),
                                         (''peaches'', JObj [(''v'', JNum 2)])])])),
      be_getOps = (\<lambda>collection docName start end. (JNull, JArr [JObj [(''op'', JStr ''ins'')]])),
      be_subscribe = (\<lambda>collection docName version. (JNull, no_stream)),
      be_bulkSubscribe = (\<lambda>requests. (JNull, [])),
      be_fetchAndSubscribe = (\<lambda>collection docName. (JNull, JNull, no_stream)),
      be_submit = (\<lambda>collection docName opData options. (JNull, JNum 1, JArr [], JNull)),
      be_queryFetch = (\<lambda>collection q options. (JNull, JArr [], JNull)),
      be_query = (\<lambda>collection q options. (JNull, \<lparr>em_data = JArr [], em_extra = JNull\<rparr>))\<rparr>"

definition demo :: middleware where
  "demo = filterOps (filter_doc (Middleware demo_backend) mario_filter) cheat_filter"

text \<open>The same with the redirecting middleware registered for all actions.\<close>

definition demo_redirect :: middleware where
  "demo_redirect = demo\<lparr>methods := [[] \<mapsto> [Sync redirect]]\<rparr>"

text \<open>The same with the refusing middleware registered for \<^verbatim>\<open>connect\<close>.\<close>

definition demo_deny :: middleware where
  "demo_deny = demo\<lparr>methods := [[] \<mapsto> [], ''connect'' \<mapsto> [Async deny]]\<rparr>"

text \<open>The same with one of the two op filters above in place of the cheat filter.\<close>

definition demo_censor :: middleware where
  "demo_censor = demo\<lparr>opFilters := [censor_filter]\<rparr>"

definition demo_silent :: middleware where
  "demo_silent = demo\<lparr>opFilters := [silent_filter]\<rparr>"

text \<open>An agent after a successful connect, with nothing queued.\<close>

definition connected :: world where
  "connected = UserAgent\<lparr>connectCalled := True\<rparr>"

section \<open>Bookkeeping for the bulk schedules\<close>

text \<open>The passes a schedule completes, in order.\<close>

fun fins :: "bulk_step list \<Rightarrow> nat list" where
  "fins [] = []"
| "fins (Finish i # xs) = i # fins xs"
| "fins (st # xs) = fins xs"

text \<open>
  What holds of the closure's variables after a schedule prefix that started \<open>l\<close>
  passes, completed the passes \<open>fin\<close>, ended the loop or not (\<open>e\<close>) and saw the first
  error \<open>fe\<close>.
\<close>

definition bulk_inv ::
  "(event \<times> cb2 option) list \<Rightarrow> jsval \<Rightarrow> nat \<Rightarrow> nat list \<Rightarrow> bool \<Rightarrow> jsval option \<Rightarrow> bulk \<Rightarrow> bool" where
  "bulk_inv invs d l fin e fe s =
     (launched s = l \<and> l \<le> length invs \<and> distinct fin \<and> set fin \<subseteq> {..<l} \<and>
      (e \<longrightarrow> l = length invs) \<and>
      work s = 1 + int l - int (length fin) - (if e then 1 else 0) \<and>
      cb_live s = (fe = None) \<and>
      filter is_callback (btrace s) =
        (case fe of
           Some er \<Rightarrow> [CallbackCalled [V er]]
         | None \<Rightarrow> if e \<and> length fin = length invs then [CallbackCalled [V JNull, V d]] else []))"

section \<open>Inputs for concrete runs\<close>


text \<open>The world after a connect that the middleware refused.\<close>

definition refused :: world where
  "refused = (case then_tick demo_deny (connect UserAgent (JRef ''stream'') JNull) of
                Inr st \<Rightarrow> st | Inl f \<Rightarrow> UserAgent)"

text \<open>The requests that \<^verbatim>\<open>getOps('docs', 'a', 0, 10)\<close>, \<^verbatim>\<open>bulkFetch(requests)\<close> and \<^verbatim>\<open>connect\<close> build.\<close>

definition get_ops_request :: jsval where
  "get_ops_request = build_request (JRef ''agent'') ''get ops'' (JStr ''docs'') (JStr ''a'')
                       (Some (JObj [(''start'', JNum 0), (''end'', JNum 10)]))"

definition bulk_request :: "jsval \<Rightarrow> jsval" where
  "bulk_request requests =
     build_request (JRef ''agent'') ''bulk fetch'' JNull JNull (Some (JObj [(''requests'', requests)]))"



definition empty_requests :: jsval where
  "empty_requests = JObj [(''people'', JArr []), (''pets'', JArr [])]"

text \<open>A wrapped stream whose source emits three operations, the second one a cheat.\<close>

definition three_ops :: wrapped_stream where
  "three_ops = wrapOpStream (JStr ''docs'') (JStr ''a'')
     \<lparr>events = [JObj [(''op'', JStr ''ins'')], JObj [(''op'', JStr ''cheat'')], JObj [(''op'', JStr ''del'')]],
      destroyCalls = 0\<rparr>"

text \<open>Bulk results, and a schedule in which every pass completes after the loop, the last one first.\<close>

definition three_people :: jsval where
  "three_people = JObj [(''people'', JObj [(''mario'', JObj [(''v'', JNum 1)]),
                                          (''peaches'', JObj [(''v'', JNum 2)]),
                                          (''luigi'', JObj [(''v'', JNum 3)])])]"

definition one_person :: jsval where
  "one_person = JObj [(''people'', JObj [(''mario'', JObj [(''v'', JNum 1)])])]"

definition late_sched :: "bulk_step list" where
  "late_sched = [Launch, Launch, Launch, LoopEnd, Finish 2, Finish 0, Finish 1]"

section \<open>Filter chains run in order and stop at the first error\<close>

lemma eachSeries_filters_all:
  "\<forall>i<length fs. succeeds (fs ! i) c dn (mutated (take i fs) c dn (data r)) \<Longrightarrow>
   eachSeries fs (filter_iterator c dn) r =
     (\<lparr>data = mutated fs c dn (data r), invoked = invoked r @ fs\<rparr>, Some JUndefined)"
proof (induction fs arbitrary: r)
  case Nil
  then show ?case by simp
next
  case (Cons f fs)
  from Cons.prems have h0: "succeeds f c dn (data r)" by fastforce
  obtain d' sg where fd: "f c dn (data r) = (d', sg)" by (cases "f c dn (data r)")
  from h0 fd obtain err where sg: "sg = Next err" and nt: "\<not> truthy err"
    by (auto simp: succeeds_def split: signal.splits)
  let ?r' = "\<lparr>data = d', invoked = invoked r @ [f]\<rparr>"
  have "\<forall>i<length fs. succeeds (fs ! i) c dn (mutated (take i fs) c dn (data ?r'))"
  proof (intro allI impI)
    fix i assume "i < length fs"
    then have "Suc i < length (f # fs)" by simp
    with Cons.prems have "succeeds ((f # fs) ! Suc i) c dn (mutated (take (Suc i) (f # fs)) c dn (data r))"
      by blast
    then show "succeeds (fs ! i) c dn (mutated (take i fs) c dn (data ?r'))"
      using fd by simp
  qed
  from Cons.IH[OF this] show ?case
    using fd sg nt by (simp add: filter_iterator_def)
qed

lemma eachSeries_filters_reject:
  "k < length fs \<Longrightarrow>
   \<forall>i<k. succeeds (fs ! i) c dn (mutated (take i fs) c dn (data r)) \<Longrightarrow>
   rejects (fs ! k) c dn (mutated (take k fs) c dn (data r)) err \<Longrightarrow>
   eachSeries fs (filter_iterator c dn) r =
     (\<lparr>data = mutated (take (Suc k) fs) c dn (data r), invoked = invoked r @ take (Suc k) fs\<rparr>, Some err)"
proof (induction fs arbitrary: r k)
  case Nil
  then show ?case by simp
next
  case (Cons f fs)
  obtain d' sg where fd: "f c dn (data r) = (d', sg)" by (cases "f c dn (data r)")
  show ?case
  proof (cases k)
    case 0
    with Cons.prems fd show ?thesis
      by (simp add: rejects_def filter_iterator_def)
  next
    case (Suc j)
    from Cons.prems Suc have h0: "succeeds f c dn (data r)" by fastforce
    from h0 fd obtain e0 where sg: "sg = Next e0" and nt: "\<not> truthy e0"
      by (auto simp: succeeds_def split: signal.splits)
    let ?r' = "\<lparr>data = d', invoked = invoked r @ [f]\<rparr>"
    have a: "j < length fs" using Cons.prems Suc by simp
    have b: "\<forall>i<j. succeeds (fs ! i) c dn (mutated (take i fs) c dn (data ?r'))"
    proof (intro allI impI)
      fix i assume "i < j"
      then have "Suc i < k" using Suc by simp
      with Cons.prems have "succeeds ((f # fs) ! Suc i) c dn (mutated (take (Suc i) (f # fs)) c dn (data r))"
        by blast
      then show "succeeds (fs ! i) c dn (mutated (take i fs) c dn (data ?r'))"
        using fd by simp
    qed
    have c: "rejects (fs ! j) c dn (mutated (take j fs) c dn (data ?r')) err"
      using Cons.prems(3) Suc fd by simp
    from Cons.IH[OF a b c] show ?thesis
      using fd sg nt Suc by (simp add: filter_iterator_def)
  qed
qed

text \<open>
  Claim C3. A chain of \<open>n\<close> filters run over \<open>(collection, docName, data)\<close> calls its
  filters one after the other in the order of the list. When every filter succeeds on
  the data as the earlier ones left it, all \<open>n\<close> are called and the callback receives
  no error and the data with all mutations applied. When the filter at position \<open>k\<close>
  (counted from 0) is the first to signal an error, the filters called are exactly the
  first \<open>k + 1\<close>, none after it, and the callback receives that error and \<^verbatim>\<open>null\<close>.
\<close>

theorem runFilters_chain:
  "((\<forall>i<length fs. succeeds (fs ! i) c dn (mutated (take i fs) c dn d)) \<longrightarrow>
      runFilters fs c dn d =
        (\<lparr>data = mutated fs c dn d, invoked = fs\<rparr>, Some (JUndefined, mutated fs c dn d))) \<and>
   (k < length fs \<and>
    (\<forall>i<k. succeeds (fs ! i) c dn (mutated (take i fs) c dn d)) \<and>
    rejects (fs ! k) c dn (mutated (take k fs) c dn d) err \<longrightarrow>
      invoked (fst (runFilters fs c dn d)) = take (Suc k) fs \<and>
      snd (runFilters fs c dn d) = Some (err, JNull))"
proof (intro conjI impI)
  assume "\<forall>i<length fs. succeeds (fs ! i) c dn (mutated (take i fs) c dn d)"
  then have "\<forall>i<length fs. succeeds (fs ! i) c dn (mutated (take i fs) c dn (data \<lparr>data = d, invoked = []\<rparr>))"
    by simp
  from eachSeries_filters_all[OF this]
  show "runFilters fs c dn d =
        (\<lparr>data = mutated fs c dn d, invoked = fs\<rparr>, Some (JUndefined, mutated fs c dn d))"
    by (simp add: runFilters_def)
next
  assume h: "k < length fs \<and>
    (\<forall>i<k. succeeds (fs ! i) c dn (mutated (take i fs) c dn d)) \<and>
    rejects (fs ! k) c dn (mutated (take k fs) c dn d) err"
  then have t: "truthy err" by (simp add: rejects_def)
  from h have e: "eachSeries fs (filter_iterator c dn) \<lparr>data = d, invoked = []\<rparr> =
     (\<lparr>data = mutated (take (Suc k) fs) c dn d, invoked = take (Suc k) fs\<rparr>, Some err)"
    using eachSeries_filters_reject[of k fs c dn "\<lparr>data = d, invoked = []\<rparr>" err] by simp
  show "invoked (fst (runFilters fs c dn d)) = take (Suc k) fs"
    using e by (simp add: runFilters_def)
  show "snd (runFilters fs c dn d) = Some (err, JNull)"
    using e t by (simp add: runFilters_def)
qed

theorem runFilters_chain_witness:
  "succeeds mario_filter (JStr ''people'') (JStr ''mario'') (JObj [(''v'', JNum 1)]) \<and>
   succeeds cheat_filter (JStr ''people'') (JStr ''mario'')
     (mutated [mario_filter] (JStr ''people'') (JStr ''mario'') (JObj [(''v'', JNum 1)])) \<and>
   runFilters [mario_filter, cheat_filter] (JStr ''people'') (JStr ''mario'') (JObj [(''v'', JNum 1)]) =
     (\<lparr>data = JObj [(''v'', JNum 1), (''greeting'', JStr ''It'se me: Mario'')],
       invoked = [mario_filter, cheat_filter]\<rparr>,
      Some (JUndefined, JObj [(''v'', JNum 1), (''greeting'', JStr ''It'se me: Mario'')])) \<and>
   rejects ([mario_filter, cheat_filter] ! 0) (JStr ''people'') (JStr ''peaches'')
     (mutated (take 0 [mario_filter, cheat_filter]) (JStr ''people'') (JStr ''peaches'')
        (JObj [(''v'', JNum 2)])) (JStr ''Document not found!'') \<and>
   invoked (fst (runFilters [mario_filter, cheat_filter] (JStr ''people'') (JStr ''peaches'')
                   (JObj [(''v'', JNum 2)]))) = [mario_filter] \<and>
   snd (runFilters [mario_filter, cheat_filter] (JStr ''people'') (JStr ''peaches'')
          (JObj [(''v'', JNum 2)])) = Some (JStr ''Document not found!'', JNull)"
proof -
  have h1: "\<forall>i<length [mario_filter, cheat_filter].
      succeeds ([mario_filter, cheat_filter] ! i) (JStr ''people'') (JStr ''mario'')
        (mutated (take i [mario_filter, cheat_filter]) (JStr ''people'') (JStr ''mario'')
           (JObj [(''v'', JNum 1)]))"
    by (simp add: less_Suc_eq succeeds_def mario_filter_def cheat_filter_def)
  have m1: "mutated [mario_filter, cheat_filter] (JStr ''people'') (JStr ''mario'') (JObj [(''v'', JNum 1)])
            = JObj [(''v'', JNum 1), (''greeting'', JStr ''It'se me: Mario'')]"
    by (simp add: mario_filter_def cheat_filter_def)
  have h2: "rejects ([mario_filter, cheat_filter] ! 0) (JStr ''people'') (JStr ''peaches'')
     (mutated (take 0 [mario_filter, cheat_filter]) (JStr ''people'') (JStr ''peaches'')
        (JObj [(''v'', JNum 2)])) (JStr ''Document not found!'')"
    by (simp add: rejects_def mario_filter_def)
  from runFilters_chain[of "[mario_filter, cheat_filter]" "JStr ''people''" "JStr ''mario''"
         "JObj [(''v'', JNum 1)]" 0 JNull]
       runFilters_chain[of "[mario_filter, cheat_filter]" "JStr ''people''" "JStr ''peaches''"
         "JObj [(''v'', JNum 2)]" 0 "JStr ''Document not found!''"]
       h1 h2 m1
  show ?thesis by (simp add: succeeds_def mario_filter_def cheat_filter_def)
qed

section \<open>The dispatcher runs the list of the action, then the list for all actions\<close>





lemma build_request_action:
  "request_opt = None \<or> (\<exists>kvs. request_opt = Some (JObj kvs)) \<Longrightarrow>
   get_prop (build_request agent action collection docName request_opt) ''action'' = JStr action"
  by (auto simp: build_request_def Let_def update_conv')




section \<open>Bulk filtering reports once\<close>

lemma distinct_bounded_length:
  "distinct xs \<Longrightarrow> set xs \<subseteq> {..<n} \<Longrightarrow> length xs \<le> n"
proof -
  assume d: "distinct xs" and s: "set xs \<subseteq> {..<n::nat}"
  have "card (set xs) \<le> card {..<n}" using s by (intro card_mono) auto
  then show ?thesis using d by (simp add: distinct_card)
qed

lemma inv_launch:
  assumes "bulk_inv invs d l fin e fe s" "\<not> e" "l < length invs" "\<not> is_callback (fst (invs ! l))"
  shows "bulk_inv invs d (Suc l) fin e fe (bulk_exec invs d Launch s)"
  using assms distinct_bounded_length[of fin l]
  by (auto simp: bulk_inv_def split: option.splits)

lemma inv_loopend:
  assumes "bulk_inv invs d l fin e fe s" "\<not> e" "l = length invs"
  shows "bulk_inv invs d l fin True fe (bulk_exec invs d LoopEnd s)"
  using assms distinct_bounded_length[of fin l]
  by (auto simp: bulk_inv_def done_step_def Let_def split: option.splits)

lemma inv_finish:
  assumes "bulk_inv invs d l fin e fe s" "i < l" "i \<notin> set fin" "snd (invs ! i) = Some (err, x)"
  shows "bulk_inv invs d l (i # fin) e
           (case fe of Some er \<Rightarrow> Some er | None \<Rightarrow> if truthy err then Some err else None)
           (bulk_exec invs d (Finish i) s)"
proof -
  have b: "length (i # fin) \<le> l"
    using assms distinct_bounded_length[of "i # fin" l] by (auto simp: bulk_inv_def)
  show ?thesis
    using assms b
    by (auto simp: bulk_inv_def done_step_def on_filtered_def Let_def split: option.splits)
qed

lemma bulk_run_Cons:
  "bulk_run invs d (st # sched) s = bulk_run invs d sched (bulk_exec invs d st s)"
  by (simp add: bulk_run_def)

lemma bulk_run_inv:
  assumes nc: "\<forall>p\<in>set invs. \<not> is_callback (fst p)"
  shows "valid_sched invs l fin e sched \<Longrightarrow> bulk_inv invs d l fin e fe s \<Longrightarrow>
         bulk_inv invs d (l + length (filter (\<lambda>st. st = Launch) sched)) (rev (fins sched) @ fin)
           (e \<or> LoopEnd \<in> set sched)
           (case fe of Some er \<Rightarrow> Some er | None \<Rightarrow> first_error invs sched)
           (bulk_run invs d sched s)"
proof (induction sched arbitrary: l fin e fe s)
  case Nil
  then show ?case by (cases fe) (simp_all add: bulk_run_def)
next
  case (Cons st sched)
  show ?case
  proof (cases st)
    case Launch
    from Cons.prems Launch have v: "\<not> e" "l < length invs" "valid_sched invs (Suc l) fin e sched"
      by auto
    have "\<not> is_callback (fst (invs ! l))" using nc v(2) by simp
    from inv_launch[OF Cons.prems(2) v(1) v(2) this]
    have "bulk_inv invs d (Suc l) fin e fe (bulk_exec invs d Launch s)" .
    from Cons.IH[OF v(3) this] show ?thesis
      using Launch v(1) by (cases fe) (simp_all add: bulk_run_Cons del: bulk_exec.simps)
  next
    case (Finish i)
    from Cons.prems Finish have v: "i < l" "i \<notin> set fin" "snd (invs ! i) \<noteq> None"
      "valid_sched invs l (i # fin) e sched" by auto
    from v(3) obtain err x where r: "snd (invs ! i) = Some (err, x)" by (cases "snd (invs ! i)") auto
    from inv_finish[OF Cons.prems(2) v(1) v(2) r]
    have "bulk_inv invs d l (i # fin) e
           (case fe of Some er \<Rightarrow> Some er | None \<Rightarrow> if truthy err then Some err else None)
           (bulk_exec invs d (Finish i) s)" .
    from Cons.IH[OF v(4) this] show ?thesis
      using Finish r by (cases fe; cases "truthy err") (simp_all add: bulk_run_Cons del: bulk_exec.simps)
  next
    case LoopEnd
    from Cons.prems LoopEnd have v: "\<not> e" "l = length invs" "valid_sched invs l fin True sched"
      by auto
    from inv_loopend[OF Cons.prems(2) v(1) v(2)]
    have "bulk_inv invs d l fin True fe (bulk_exec invs d LoopEnd s)" .
    from Cons.IH[OF v(3) this] show ?thesis
      using LoopEnd by (cases fe) (simp_all add: bulk_run_Cons del: bulk_exec.simps)
  qed
qed

lemma set_fins: "set (fins sched) = {i. Finish i \<in> set sched}"
  by (induction sched rule: fins.induct) auto

lemma full_length_iff:
  assumes "distinct xs" "set xs \<subseteq> {..<n::nat}"
  shows "length xs = n \<longleftrightarrow> (\<forall>i<n. i \<in> set xs)"
proof
  assume "length xs = n"
  then have "card (set xs) = card {..<n}" using assms(1) by (simp add: distinct_card)
  then have "set xs = {..<n}" using assms(2) by (simp add: card_subset_eq)
  then show "\<forall>i<n. i \<in> set xs" by auto
next
  assume "\<forall>i<n. i \<in> set xs"
  then have "set xs = {..<n}" using assms(2) by auto
  then show "length xs = n" using assms(1) by (metis card_lessThan distinct_card)
qed

lemma invocations_no_callback: "\<forall>p\<in>set (invocations m d). \<not> is_callback (fst p)"
  by (auto simp: invocations_def split: prod.splits)

lemma bulk_init_inv: "bulk_inv invs d 0 [] False None bulk_init"
  by (simp add: bulk_inv_def bulk_init_def)

text \<open>The schedule of filters that call back at once is one of the schedules the code can produce.\<close>

lemma sync_sched_valid_from:
  "l + n = length invs \<Longrightarrow> set fin \<subseteq> {..<l} \<Longrightarrow>
   valid_sched invs l fin False
     (concat (map (\<lambda>i. Launch # (if snd (invs ! i) = None then [] else [Finish i])) [l..<l + n])
      @ [LoopEnd])"
proof (induction n arbitrary: l fin)
  case 0
  then show ?case by simp
next
  case (Suc n)
  have up: "[l..<l + Suc n] = l # [Suc l..<Suc l + n]" by (simp add: upt_rec)
  have a: "Suc l + n = length invs" using Suc.prems by simp
  have b: "set fin \<subseteq> {..<Suc l}" using Suc.prems by auto
  have c: "set (l # fin) \<subseteq> {..<Suc l}" using Suc.prems by auto
  have d: "l \<notin> set fin" using Suc.prems by auto
  have e: "l < length invs" using Suc.prems by simp
  show ?case
    unfolding up using Suc.IH[OF a b] Suc.IH[OF a c] d e by simp
qed

lemma sync_sched_valid: "valid_sched invs 0 [] False (sync_sched invs)"
  using sync_sched_valid_from[of 0 "length invs" invs "[]"] by (simp add: sync_sched_def)

text \<open>
  Claim C6. Bulk doc filtering, under any order in which the per-document passes
  complete: the overall callback is called at most once. If some pass reports an
  error, it is called with the first error reported, and neither later errors nor
  later completions call it again. Otherwise it is called, with no error and the
  filtered map, only once the loop has ended and every pass has completed.
\<close>

theorem bulk_first_error_once:
  assumes "valid_sched (invocations m d) 0 [] False sched"
  shows "filter is_callback (runBulkDocFilters m d sched) =
           (case first_error (invocations m d) sched of
              Some err \<Rightarrow> [CallbackCalled [V err]]
            | None \<Rightarrow>
                if all_finished (invocations m d) sched
                then [CallbackCalled [V JNull, V (filtered_bulk m d)]]
                else [])"
proof -
  let ?invs = "invocations m d"
  let ?d = "filtered_bulk m d"
  from bulk_run_inv[OF invocations_no_callback assms bulk_init_inv, of ?d]
  have inv: "bulk_inv ?invs ?d (length (filter (\<lambda>st. st = Launch) sched)) (rev (fins sched))
               (LoopEnd \<in> set sched) (first_error ?invs sched) (bulk_run ?invs ?d sched bulk_init)"
    by simp
  then have dist: "distinct (fins sched)" and sub: "set (fins sched) \<subseteq> {..<length ?invs}"
    by (auto simp: bulk_inv_def)
  have "length (fins sched) = length ?invs \<longleftrightarrow> (\<forall>i<length ?invs. Finish i \<in> set sched)"
    using full_length_iff[OF dist sub] by (simp add: set_fins)
  then have "(LoopEnd \<in> set sched \<and> length (rev (fins sched)) = length ?invs) = all_finished ?invs sched"
    by (auto simp: all_finished_def)
  with inv show ?thesis
    by (simp add: bulk_inv_def runBulkDocFilters_def split: option.splits)
qed

lemma invocations_three_people:
  "invocations demo three_people =
     [(FilterPass Doc (JStr ''people'') (JStr ''mario'') (JObj [(''v'', JNum 1)]) [mario_filter],
       Some (JUndefined, JObj [(''v'', JNum 1), (''greeting'', JStr ''It'se me: Mario'')])),
      (FilterPass Doc (JStr ''people'') (JStr ''peaches'') (JObj [(''v'', JNum 2)]) [mario_filter],
       Some (JStr ''Document not found!'', JNull)),
      (FilterPass Doc (JStr ''people'') (JStr ''luigi'') (JObj [(''v'', JNum 3)]) [mario_filter],
       Some (JStr ''Document not found!'', JNull))]"
  by (simp add: invocations_def bulk_docs_def three_people_def runDocFilters_def runFilters_def
                filter_iterator_def demo_def filterOps_def filter_doc_def Middleware_def
                mario_filter_def)

lemma invocations_one_person:
  "invocations demo one_person =
     [(FilterPass Doc (JStr ''people'') (JStr ''mario'') (JObj [(''v'', JNum 1)]) [mario_filter],
       Some (JUndefined, JObj [(''v'', JNum 1), (''greeting'', JStr ''It'se me: Mario'')]))]"
  by (simp add: invocations_def bulk_docs_def one_person_def runDocFilters_def runFilters_def
                filter_iterator_def demo_def filterOps_def filter_doc_def Middleware_def
                mario_filter_def)

theorem bulk_first_error_once_witness:
  "valid_sched (invocations demo three_people) 0 [] False late_sched \<and>
   first_error (invocations demo three_people) late_sched = Some (JStr ''Document not found!'') \<and>
   filter is_callback (runBulkDocFilters demo three_people late_sched) =
     [CallbackCalled [V (JStr ''Document not found!'')]] \<and>
   valid_sched (invocations demo one_person) 0 [] False [Launch, LoopEnd, Finish 0] \<and>
   first_error (invocations demo one_person) [Launch, LoopEnd, Finish 0] = None \<and>
   all_finished (invocations demo one_person) [Launch, LoopEnd, Finish 0] \<and>
   filter is_callback (runBulkDocFilters demo one_person [Launch, LoopEnd, Finish 0]) =
     [CallbackCalled [V JNull, V (JObj [(''people'', JObj [(''mario'',
        JObj [(''v'', JNum 1), (''greeting'', JStr ''It'se me: Mario'')])])])]] \<and>
   \<not> all_finished (invocations demo one_person) [Launch, LoopEnd] \<and>
   filter is_callback (runBulkDocFilters demo one_person [Launch, LoopEnd]) = []"
proof -
  have v: "valid_sched (invocations demo three_people) 0 [] False late_sched"
    unfolding invocations_three_people by (simp add: late_sched_def)
  have fe: "first_error (invocations demo three_people) late_sched = Some (JStr ''Document not found!'')"
    unfolding invocations_three_people by (simp add: late_sched_def)
  have v1: "valid_sched (invocations demo one_person) 0 [] False [Launch, LoopEnd, Finish 0]"
    unfolding invocations_one_person by simp
  have f1: "first_error (invocations demo one_person) [Launch, LoopEnd, Finish 0] = None"
    unfolding invocations_one_person by simp
  have a1: "all_finished (invocations demo one_person) [Launch, LoopEnd, Finish 0]"
    unfolding invocations_one_person by (simp add: all_finished_def)
  have v2: "valid_sched (invocations demo one_person) 0 [] False [Launch, LoopEnd]"
    unfolding invocations_one_person by simp
  have f2: "first_error (invocations demo one_person) [Launch, LoopEnd] = None"
    by simp
  have a2: "\<not> all_finished (invocations demo one_person) [Launch, LoopEnd]"
    unfolding invocations_one_person by (simp add: all_finished_def)
  have fb: "filtered_bulk demo one_person =
              JObj [(''people'', JObj [(''mario'',
                 JObj [(''v'', JNum 1), (''greeting'', JStr ''It'se me: Mario'')])])]"
    by (simp add: filtered_bulk_def filtered_docs_def one_person_def runDocFilters_def runFilters_def
                  filter_iterator_def demo_def filterOps_def filter_doc_def Middleware_def
                  mario_filter_def)
  from bulk_first_error_once[OF v] bulk_first_error_once[OF v1] bulk_first_error_once[OF v2]
       v fe v1 f1 a1 v2 f2 a2 fb
  show ?thesis by simp
qed

section \<open>Wrapped streams forward one value per event\<close>

lemma eachSeries_responsive:
  "\<forall>f\<in>set fs. responsive f \<Longrightarrow> snd (eachSeries fs (filter_iterator c dn) r) \<noteq> None"
proof (induction fs arbitrary: r)
  case Nil
  then show ?case by simp
next
  case (Cons f fs)
  obtain d' sg where fd: "f c dn (data r) = (d', sg)" by (cases "f c dn (data r)")
  from Cons.prems have "responsive f" by simp
  then have "snd (f c dn (data r)) \<noteq> NoCall" unfolding responsive_def by blast
  with fd obtain e where sg: "sg = Next e" by (cases sg) auto
  from Cons.prems have rest: "\<forall>f\<in>set fs. responsive f" by simp
  show ?case
    using fd sg Cons.IH[OF rest] by (simp add: filter_iterator_def)
qed

lemma runFilters_shape:
  "snd (runFilters fs c dn d) = Some (err, x) \<Longrightarrow>
   (truthy err \<and> x = JNull) \<or> (\<not> truthy err \<and> x = data (fst (runFilters fs c dn d)))"
  by (cases "truthy err") (auto simp: runFilters_def split: prod.splits)

lemma runFilters_responsive:
  assumes "\<forall>f\<in>set fs. responsive f"
  shows "\<exists>err x. snd (runFilters fs c dn d) = Some (err, x)"
proof -
  from eachSeries_responsive[OF assms, of c dn "\<lparr>data = d, invoked = []\<rparr>"]
  obtain e where "snd (eachSeries fs (filter_iterator c dn) \<lparr>data = d, invoked = []\<rparr>) = Some e"
    by auto
  then show ?thesis by (auto simp: runFilters_def split: prod.splits)
qed

lemma piped_total:
  "\<forall>e\<in>set es. transform m w e \<noteq> None \<and> transform m w e \<noteq> Some JNull \<Longrightarrow>
   piped m w es = map (\<lambda>e. the (transform m w e)) es"
  by (induction es) auto

text \<open>
  Claim C5, as amended. When the op filters always call their continuation and never
  pass a batch with \<^verbatim>\<open>null\<close> in place of the operation, a wrapped stream forwards
  exactly one entry per event of its source, in the same order: the error wrapper
  \<^verbatim>\<open>{error: err}\<close> when the op filter chain rejects the event, or else the event as
  the chain left it. An event that is rejected does not stop the events after it.
\<close>

theorem wrapped_stream_forwarding:
  assumes resp: "\<forall>f\<in>set (opFilters m). responsive f"
      and keep: "\<forall>e\<in>set (events (source w)). keeps_record m w e"
  shows "length (forwarded m w) = length (events (source w)) \<and>
         (\<forall>i<length (events (source w)).
            (\<exists>err. truthy err \<and>
               snd (runOpFilters m (w_collection w) (w_docName w) (JArr [events (source w) ! i]))
                 = Some (err, JNull) \<and>
               forwarded m w ! i = JObj [(''error'', err)]) \<or>
            (\<exists>err. \<not> truthy err \<and>
               snd (runOpFilters m (w_collection w) (w_docName w) (JArr [events (source w) ! i]))
                 = Some (err, data (fst (runOpFilters m (w_collection w) (w_docName w)
                                           (JArr [events (source w) ! i])))) \<and>
               forwarded m w ! i =
                 index0 (data (fst (runOpFilters m (w_collection w) (w_docName w)
                                      (JArr [events (source w) ! i]))))))"
proof -
  let ?es = "events (source w)"
  have tot: "\<And>e. \<exists>err x. snd (runOpFilters m (w_collection w) (w_docName w) (JArr [e])) = Some (err, x)"
    using runFilters_responsive[OF resp] by (simp add: runOpFilters_def)
  have some: "\<forall>e\<in>set ?es. transform m w e \<noteq> None \<and> transform m w e \<noteq> Some JNull"
  proof
    fix e assume e: "e \<in> set ?es"
    from tot[of e] have "transform m w e \<noteq> None" by (auto simp: transform_def)
    moreover from keep e have "transform m w e \<noteq> Some JNull" by (simp add: keeps_record_def)
    ultimately show "transform m w e \<noteq> None \<and> transform m w e \<noteq> Some JNull" by simp
  qed
  have fw: "forwarded m w = map (\<lambda>e. the (transform m w e)) ?es"
    using piped_total[OF some] by (simp add: forwarded_def)
  have len: "length (forwarded m w) = length ?es" using fw by simp
  have each: "\<forall>i<length ?es.
            (\<exists>err. truthy err \<and>
               snd (runOpFilters m (w_collection w) (w_docName w) (JArr [?es ! i])) = Some (err, JNull) \<and>
               forwarded m w ! i = JObj [(''error'', err)]) \<or>
            (\<exists>err. \<not> truthy err \<and>
               snd (runOpFilters m (w_collection w) (w_docName w) (JArr [?es ! i]))
                 = Some (err, data (fst (runOpFilters m (w_collection w) (w_docName w) (JArr [?es ! i])))) \<and>
               forwarded m w ! i =
                 index0 (data (fst (runOpFilters m (w_collection w) (w_docName w) (JArr [?es ! i])))))"
  proof (intro allI impI)
    fix i assume i: "i < length ?es"
    let ?run = "runOpFilters m (w_collection w) (w_docName w) (JArr [?es ! i])"
    from tot[of "?es ! i"] obtain err x where r: "snd ?run = Some (err, x)" by blast
    then have sh: "(truthy err \<and> x = JNull) \<or> (\<not> truthy err \<and> x = data (fst ?run))"
      using runFilters_shape[of "opFilters m" "w_collection w" "w_docName w" "JArr [?es ! i]" err x]
      by (simp add: runOpFilters_def)
    have fi: "forwarded m w ! i = the (transform m w (?es ! i))" using fw i by simp
    show "(\<exists>err. truthy err \<and> snd ?run = Some (err, JNull) \<and> forwarded m w ! i = JObj [(''error'', err)]) \<or>
          (\<exists>err. \<not> truthy err \<and> snd ?run = Some (err, data (fst ?run)) \<and>
                 forwarded m w ! i = index0 (data (fst ?run)))"
    proof (cases "truthy err")
      case True
      with sh r fi have "truthy err \<and> snd ?run = Some (err, JNull) \<and> forwarded m w ! i = JObj [(''error'', err)]"
        by (simp add: transform_def)
      then show ?thesis by blast
    next
      case False
      with sh r fi have "\<not> truthy err \<and> snd ?run = Some (err, data (fst ?run)) \<and>
                 forwarded m w ! i = index0 (data (fst ?run))"
        by (simp add: transform_def)
      then show ?thesis by blast
    qed
  qed
  from len each show ?thesis by blast
qed

theorem wrapped_stream_forwarding_witness:
  "opFilters demo = [cheat_filter] \<and> responsive cheat_filter \<and>
   events (source three_ops) =
     [JObj [(''op'', JStr ''ins'')], JObj [(''op'', JStr ''cheat'')], JObj [(''op'', JStr ''del'')]] \<and>
   keeps_record demo three_ops (JObj [(''op'', JStr ''ins'')]) \<and>
   keeps_record demo three_ops (JObj [(''op'', JStr ''cheat'')]) \<and>
   keeps_record demo three_ops (JObj [(''op'', JStr ''del'')]) \<and>
   length (forwarded demo three_ops) = 3 \<and>
   forwarded demo three_ops =
     [JObj [(''op'', JStr ''ins'')], JObj [(''error'', JStr ''Not on my watch!'')], JObj [(''op'', JStr ''del'')]]"
proof -
  have o: "opFilters demo = [cheat_filter]"
    by (simp add: demo_def filterOps_def filter_doc_def Middleware_def)
  have r: "responsive cheat_filter"
    by (simp add: responsive_def cheat_filter_def)
  have h: "\<forall>f\<in>set (opFilters demo). responsive f"
    using o r by simp
  have es: "events (source three_ops) =
     [JObj [(''op'', JStr ''ins'')], JObj [(''op'', JStr ''cheat'')], JObj [(''op'', JStr ''del'')]]"
    by (simp add: three_ops_def wrapOpStream_def)
  have k1: "keeps_record demo three_ops (JObj [(''op'', JStr ''ins'')])"
    by (simp add: keeps_record_def three_ops_def wrapOpStream_def transform_def runOpFilters_def
                  runFilters_def filter_iterator_def o cheat_filter_def)
  have k2: "keeps_record demo three_ops (JObj [(''op'', JStr ''cheat'')])"
    by (simp add: keeps_record_def three_ops_def wrapOpStream_def transform_def runOpFilters_def
                  runFilters_def filter_iterator_def o cheat_filter_def)
  have k3: "keeps_record demo three_ops (JObj [(''op'', JStr ''del'')])"
    by (simp add: keeps_record_def three_ops_def wrapOpStream_def transform_def runOpFilters_def
                  runFilters_def filter_iterator_def o cheat_filter_def)
  have k: "\<forall>e\<in>set (events (source three_ops)). keeps_record demo three_ops e"
    using es k1 k2 k3 by simp
  have ev: "forwarded demo three_ops =
     [JObj [(''op'', JStr ''ins'')], JObj [(''error'', JStr ''Not on my watch!'')], JObj [(''op'', JStr ''del'')]]"
    by (simp add: forwarded_def three_ops_def wrapOpStream_def transform_def runOpFilters_def
                  runFilters_def filter_iterator_def o cheat_filter_def)
  from wrapped_stream_forwarding[OF h k] o r es k1 k2 k3 ev
  show ?thesis by simp
qed

text \<open>
  The claim as stated fails for filters outside these two conditions. An op filter that
  passes every batch but leaves \<^verbatim>\<open>null\<close> in place of the second of three operations
  ends the stream there: one entry is forwarded, not three. An op filter that never
  calls its continuation forwards nothing.
\<close>

theorem wrapped_stream_counterexample:
  "length (events (source three_ops)) = 3 \<and>
   opFilters demo_censor = [censor_filter] \<and> responsive censor_filter \<and>
   snd (runOpFilters demo_censor (JStr ''docs'') (JStr ''a'') (JArr [JObj [(''op'', JStr ''cheat'')]]))
     = Some (JUndefined, JArr [JNull]) \<and>
   forwarded demo_censor three_ops = [JObj [(''op'', JStr ''ins'')]] \<and>
   opFilters demo_silent = [silent_filter] \<and>
   forwarded demo_silent three_ops = []"
  by (simp add: forwarded_def three_ops_def wrapOpStream_def transform_def runOpFilters_def
                runFilters_def filter_iterator_def demo_censor_def demo_silent_def
                censor_filter_def silent_filter_def responsive_def)

section \<open>Destroying a wrapped stream\<close>

lemma destroy_times_count:
  "destroyCalls (source (destroy_times n w)) = destroyCalls (source w) + n"
  by (induction n arbitrary: w) (simp_all add: destroyPassthrough_def)

text \<open>
  Claim C7, as amended. Every call of \<^verbatim>\<open>destroy()\<close> on the wrapper calls
  \<^verbatim>\<open>destroy()\<close> on the source once: one call destroys the source exactly once, and
  \<open>n\<close> calls reach the source \<open>n\<close> times.
\<close>

theorem destroy_propagates_every_call:
  "destroyCalls (source (destroyPassthrough w)) = Suc (destroyCalls (source w)) \<and>
   destroyCalls (source (destroy_times n w)) = destroyCalls (source w) + n"
  by (simp add: destroy_times_count destroyPassthrough_def)

text \<open>
  The claim as stated fails: after two calls of \<^verbatim>\<open>destroy()\<close> on the wrapper the
  source has been destroyed twice.
\<close>

theorem destroy_twice_counterexample:
  "destroyCalls (source (destroyPassthrough (destroyPassthrough
      (wrapOpStream (JStr ''docs'') (JStr ''a'') \<lparr>events = [], destroyCalls = 0\<rparr>)))) = 2"
  by (simp add: destroyPassthrough_def wrapOpStream_def)

section \<open>The callback of a trigger runs on a later turn\<close>

lemma pending_reset:
  "pending st = [] \<Longrightarrow> st\<lparr>pending := [], trace := t\<rparr> = st\<lparr>trace := t\<rparr>"
  by (cases st) simp



section \<open>No operation before a successful connect\<close>

lemma run_next_err_truthy:
  "snd (snd (run_next b ms r)) = Some (CbErr e) \<Longrightarrow> truthy e"
proof (induction b ms r rule: run_next.induct)
  case (1 b request)
  then show ?case by simp
next
  case (2 b f ms request)
  then show ?case by (simp split: prod.splits)
next
  case (3 b f ms request)
  then show ?case by (auto split: prod.splits signal.splits if_splits)
qed

lemma run_next_backend:
  "snd (snd (run_next b ms r)) = Some (CbOk b' a) \<Longrightarrow> b' = b"
  by (induction b ms r rule: run_next.induct)
     (auto split: prod.splits signal.splits if_splits)

lemma agent_trigger_flag:
  "agent_trigger st action c dn ro k = Inr st' \<Longrightarrow> connectCalled st' = connectCalled st"
  by (auto simp: agent_trigger_def trigger_def split: if_splits)

lemma apply_cont_flag:
  assumes "apply_cont m k res st = Inr st'" "connectCalled st'" "\<not> connectCalled st"
  shows "k = KConnect \<and> \<not> truthy (err_of res)"
proof (cases k)
  case KConnect
  with assms show ?thesis by (auto simp: emit_def split: if_splits)
next
  case (KFetch c dn)
  with assms show ?thesis by (auto simp: emit_def)
next
  case (KBulkFetch rq)
  with assms show ?thesis by (auto simp: emit_def split: sum.splits)
next
  case (KGetOps c dn s e)
  with assms show ?thesis by (auto simp: emit_def)
next
  case (KSubscribe c dn v)
  with assms show ?thesis by (auto simp: emit_def)
next
  case (KBulkSubscribe rq)
  with assms show ?thesis by (auto simp: emit_def)
next
  case (KFetchAndSubscribe1 c dn)
  with assms show ?thesis
    by (auto simp: emit_def dest: agent_trigger_flag split: dispatch_result.splits)
next
  case (KFetchAndSubscribe2 c dn)
  with assms show ?thesis by (auto simp: emit_def)
next
  case (KSubmit c dn od oo)
  with assms show ?thesis
    by (auto simp: emit_def Let_def dest: agent_trigger_flag
             split: dispatch_result.splits if_splits prod.splits)
next
  case (KAfterSubmit v ops)
  with assms show ?thesis by (auto simp: emit_def)
next
  case (KQueryFetch c q oo)
  with assms show ?thesis by (auto simp: emit_def)
next
  case (KQuery c q oo)
  with assms show ?thesis by (auto simp: emit_def)
qed

lemma tick_flag:
  assumes "\<not> connectCalled st" "tick m st = Inr st'" "connectCalled st'"
  shows "\<exists>request rest called request' action.
           pending st = RunMethod request KConnect # rest \<and>
           runMethod m request = Inr (called, request', Some (CbOk (backend m) action))"
proof (cases "pending st")
  case Nil
  with assms show ?thesis by (simp add: tick_def)
next
  case (Cons t rest)
  obtain request k where t: "t = RunMethod request k" by (cases t)
  show ?thesis
  proof (cases "runMethod m request")
    case (Inl f)
    with assms(2) Cons t show ?thesis by (simp add: tick_def)
  next
    case (Inr d)
    obtain called request' res where d: "d = (called, request', res)" by (cases d)
    from Inr d obtain l where
      rn: "run_next (backend m) (l @ global_list (methods m)) request = (called, request', res)"
      by (auto simp: runMethod_def split: sum.splits)
    let ?st1 = "emit (map MiddlewareCalled called) (st\<lparr>pending := rest\<rparr>)"
    have f1: "\<not> connectCalled ?st1" using assms(1) by (simp add: emit_def)
    show ?thesis
    proof (cases res)
      case None
      with assms Cons t Inr d f1 show ?thesis by (simp add: tick_def)
    next
      case (Some r)
      with assms(2) Cons t Inr d have ac: "apply_cont m k r ?st1 = Inr st'" by (simp add: tick_def)
      from apply_cont_flag[OF ac assms(3) f1] have k: "k = KConnect" and ne: "\<not> truthy (err_of r)"
        by simp_all
      have "\<exists>action. r = CbOk (backend m) action"
      proof (cases r)
        case (CbErr e)
        with rn Some have "snd (snd (run_next (backend m) (l @ global_list (methods m)) request))
            = Some (CbErr e)" by simp
        from run_next_err_truthy[OF this] ne CbErr show ?thesis by simp
      next
        case (CbOk b action)
        with rn Some have "snd (snd (run_next (backend m) (l @ global_list (methods m)) request))
            = Some (CbOk b action)" by simp
        from run_next_backend[OF this] CbOk show ?thesis by simp
      qed
      with Cons t k Inr d Some show ?thesis by auto
    qed
  qed
qed

text \<open>
  Claim C1. While the agent's flag is not set, each of fetch, bulkFetch, getOps,
  subscribe, bulkSubscribe, fetchAndSubscribe, submit, queryFetch and query throws the
  usage fault, and nothing is queued or called. The flag is not set when the agent is
  created; calling \<^verbatim>\<open>connect\<close> does not set it; and a turn of the event loop sets it
  only when it runs the callback of a \<^verbatim>\<open>connect\<close> whose chain completed without
  error.
\<close>

theorem usage_fault_before_connect:
  assumes "\<not> connectCalled st"
  shows "fetch st collection docName = Inl (UsageFault ''fetch'') \<and>
         bulkFetch st requests = Inl (UsageFault ''bulk fetch'') \<and>
         getOps st collection docName start end = Inl (UsageFault ''get ops'') \<and>
         subscribe st collection docName version = Inl (UsageFault ''subscribe'') \<and>
         bulkSubscribe st requests = Inl (UsageFault ''bulk subscribe'') \<and>
         fetchAndSubscribe st collection docName = Inl (UsageFault ''fetch'') \<and>
         submit st collection docName opData options_opt = Inl (UsageFault ''submit'') \<and>
         queryFetch st collection q options = Inl (UsageFault ''query'') \<and>
         query st collection q options = Inl (UsageFault ''query'') \<and>
         (\<exists>st'. connect st stream initialReq = Inr st' \<and> \<not> connectCalled st' \<and> trace st' = trace st) \<and>
         (\<forall>st'. tick m st = Inr st' \<and> connectCalled st' \<longrightarrow>
            (\<exists>request rest called request' action.
               pending st = RunMethod request KConnect # rest \<and>
               runMethod m request = Inr (called, request', Some (CbOk (backend m) action)))) \<and>
         \<not> connectCalled UserAgent"
proof -
  have ops: "fetch st collection docName = Inl (UsageFault ''fetch'') \<and>
         bulkFetch st requests = Inl (UsageFault ''bulk fetch'') \<and>
         getOps st collection docName start end = Inl (UsageFault ''get ops'') \<and>
         subscribe st collection docName version = Inl (UsageFault ''subscribe'') \<and>
         bulkSubscribe st requests = Inl (UsageFault ''bulk subscribe'') \<and>
         fetchAndSubscribe st collection docName = Inl (UsageFault ''fetch'') \<and>
         submit st collection docName opData options_opt = Inl (UsageFault ''submit'') \<and>
         queryFetch st collection q options = Inl (UsageFault ''query'') \<and>
         query st collection q options = Inl (UsageFault ''query'')"
    using assms
    by (simp add: fetch_def bulkFetch_def getOps_def subscribe_def bulkSubscribe_def
                  fetchAndSubscribe_def submit_def queryFetch_def query_def agent_trigger_def)
  have con: "\<exists>st'. connect st stream initialReq = Inr st' \<and> \<not> connectCalled st' \<and> trace st' = trace st"
    using assms by (simp add: connect_def agent_trigger_def trigger_def)
  have tk: "\<forall>st'. tick m st = Inr st' \<and> connectCalled st' \<longrightarrow>
            (\<exists>request rest called request' action.
               pending st = RunMethod request KConnect # rest \<and>
               runMethod m request = Inr (called, request', Some (CbOk (backend m) action)))"
    using tick_flag[OF assms] by blast
  have new: "\<not> connectCalled UserAgent" by (simp add: UserAgent_def)
  from ops con tk new show ?thesis by blast
qed

theorem usage_fault_before_connect_witness:
  "then_tick demo_deny (connect UserAgent (JRef ''stream'') JNull) = Inr refused \<and>
   trace refused = [MiddlewareCalled (Async deny), CallbackCalled [V (JStr ''forbidden'')]] \<and>
   \<not> connectCalled refused \<and>
   fetch refused (JStr ''people'') (JStr ''mario'') = Inl (UsageFault ''fetch'') \<and>
   submit refused (JStr ''people'') (JStr ''mario'') (JObj [(''op'', JStr ''ins'')]) None
     = Inl (UsageFault ''submit'') \<and>
   query refused (JStr ''people'') (JObj []) JNull = Inl (UsageFault ''query'')"
proof -
  have run: "then_tick demo_deny (connect UserAgent (JRef ''stream'') JNull) =
        Inr \<lparr>connectCalled = False, pending = [],
             trace = [MiddlewareCalled (Async deny), CallbackCalled [V (JStr ''forbidden'')]]\<rparr>"
    by (simp add: then_tick_def connect_def agent_trigger_def trigger_def tick_def runMethod_def
                  build_request_def demo_deny_def global_list_def emit_def UserAgent_def deny_def)
  then have r: "refused = \<lparr>connectCalled = False, pending = [],
             trace = [MiddlewareCalled (Async deny), CallbackCalled [V (JStr ''forbidden'')]]\<rparr>"
    by (simp add: refused_def)
  have n: "\<not> connectCalled refused" unfolding r by simp
  have tr: "trace refused = [MiddlewareCalled (Async deny), CallbackCalled [V (JStr ''forbidden'')]]"
    unfolding r by simp
  have rr: "then_tick demo_deny (connect UserAgent (JRef ''stream'') JNull) = Inr refused"
    unfolding r by (rule run)
  from usage_fault_before_connect[OF n, of "JStr ''people''" "JStr ''mario''" JNull JNull JNull JNull
         "JObj [(''op'', JStr ''ins'')]" None "JObj []" JNull JNull JNull demo_deny]
       rr tr n
  show ?thesis by simp
qed

section \<open>What follows the chain in bulkFetch and fetch\<close>

lemma requests_empty_loop_lists:
  "list_all (\<lambda>(cName, docNames). is_list docNames) kvs \<Longrightarrow>
   requests_empty_loop kvs = Inr (list_all (\<lambda>(cName, docNames). docNames = JArr []) kvs)"
proof (induction kvs)
  case Nil
  then show ?case by simp
next
  case (Cons p kvs)
  obtain c v where p: "p = (c, v)" by (cases p)
  with Cons.prems obtain xs where v: "v = JArr xs" by (cases v) auto
  from Cons show ?case using p v by (cases xs) auto
qed

lemma bulkFetchRequestsEmpty_map:
  "request_map requests \<Longrightarrow> bulkFetchRequestsEmpty requests = Inr (all_lists_empty requests)"
  by (auto simp: request_map_def bulkFetchRequestsEmpty_def all_lists_empty_def
                 requests_empty_loop_lists)

lemma then_tick_op:
  assumes "connectCalled st" "pending st = []"
      and "runMethod m (build_request (JRef ''agent'') action collection docName request_opt)
             = Inr (called, request', Some r)"
  shows "then_tick m (agent_trigger st action collection docName request_opt k) =
           apply_cont m k r (emit (map MiddlewareCalled called) st)"
  using assms
  by (simp add: then_tick_def agent_trigger_def trigger_def tick_def emit_def pending_reset)

lemma demo_runMethod:
  "\<not> names_inherited (get_prop request ''action'') \<Longrightarrow>
   runMethod demo request = Inr ([], request, Some (CbOk demo_backend request))"
proof -
  assume n: "\<not> names_inherited (get_prop request ''action'')"
  have "action_list [[] \<mapsto> []] (get_prop request ''action'') = Inr []"
    using n by (cases "get_prop request ''action''") auto
  then show ?thesis
    by (simp add: runMethod_def demo_def filterOps_def filter_doc_def Middleware_def global_list_def)
qed

text \<open>
  Claim C8. For a connected agent with nothing else queued, let the chain of a
  \<^verbatim>\<open>bulkFetch\<close> complete and leave a request map in the request. If every collection
  of that map has an empty list, the callback receives no error and \<^verbatim>\<open>{}\<close>, and the
  trace shows no backend call. If some list is not empty, the backend's
  \<^verbatim>\<open>bulkFetch\<close> is called with the request map of the request.
\<close>

theorem bulkFetch_empty_fast_path:
  assumes "connectCalled st" "pending st = []"
      and "runMethod m (build_request (JRef ''agent'') ''bulk fetch'' JNull JNull
                          (Some (JObj [(''requests'', requests)])))
             = Inr (called, request', Some (CbOk be action))"
      and "request_map (get_prop action ''requests'')"
  shows "(all_lists_empty (get_prop action ''requests'') \<longrightarrow>
            then_tick m (bulkFetch st requests) =
              Inr (emit (map MiddlewareCalled called @ [CallbackCalled [V JNull, V (JObj [])]]) st)) \<and>
         (\<not> all_lists_empty (get_prop action ''requests'') \<longrightarrow>
            (\<exists>evs. then_tick m (bulkFetch st requests) =
              Inr (emit (map MiddlewareCalled called @
                         BackendCalled ''bulkFetch'' [get_prop action ''requests''] # evs) st)))"
proof -
  have tt: "then_tick m (bulkFetch st requests) =
              apply_cont m (KBulkFetch requests) (CbOk be action) (emit (map MiddlewareCalled called) st)"
    unfolding bulkFetch_def using then_tick_op[OF assms(1,2,3)] .
  have em: "bulkFetchRequestsEmpty (get_prop action ''requests'')
              = Inr (all_lists_empty (get_prop action ''requests''))"
    using bulkFetchRequestsEmpty_map[OF assms(4)] .
  show ?thesis
  proof (intro conjI impI)
    assume "all_lists_empty (get_prop action ''requests'')"
    with tt em show "then_tick m (bulkFetch st requests) =
              Inr (emit (map MiddlewareCalled called @ [CallbackCalled [V JNull, V (JObj [])]]) st)"
      by (simp add: bulkFetch_cb_def emit_def)
  next
    assume ne: "\<not> all_lists_empty (get_prop action ''requests'')"
    obtain err d where b: "be_bulkFetch be (get_prop action ''requests'') = (err, d)"
      by (cases "be_bulkFetch be (get_prop action ''requests'')")
    let ?evs = "if truthy err then [CallbackCalled [V err]]
                else runBulkDocFilters m d (sync_sched (invocations m d))"
    from tt em ne b have "then_tick m (bulkFetch st requests) =
              Inr (emit (map MiddlewareCalled called @
                         BackendCalled ''bulkFetch'' [get_prop action ''requests''] # ?evs) st)"
      by (simp add: bulkFetch_cb_def emit_def)
    then show "\<exists>evs. then_tick m (bulkFetch st requests) =
              Inr (emit (map MiddlewareCalled called @
                         BackendCalled ''bulkFetch'' [get_prop action ''requests''] # evs) st)"
      by blast
  qed
qed

theorem bulkFetch_empty_fast_path_witness:
  "connectCalled connected \<and> pending connected = [] \<and>
   request_map (get_prop (bulk_request empty_requests) ''requests'') \<and>
   all_lists_empty (get_prop (bulk_request empty_requests) ''requests'') \<and>
   then_tick demo (bulkFetch connected empty_requests) =
     Inr (emit [CallbackCalled [V JNull, V (JObj [])]] connected) \<and>
   request_map (get_prop (bulk_request (JObj [(''people'', JArr [JStr ''mario''])])) ''requests'') \<and>
   \<not> all_lists_empty (get_prop (bulk_request (JObj [(''people'', JArr [JStr ''mario''])])) ''requests'') \<and>
   (\<exists>evs. then_tick demo (bulkFetch connected (JObj [(''people'', JArr [JStr ''mario''])])) =
      Inr (emit (BackendCalled ''bulkFetch'' [JObj [(''people'', JArr [JStr ''mario''])]] # evs) connected))"
proof -
  have c: "connectCalled connected" "pending connected = []"
    by (simp_all add: connected_def UserAgent_def)
  have g: "\<And>r. get_prop (bulk_request r) ''requests'' = r"
    by (simp add: bulk_request_def build_request_def)
  have rm: "\<And>r. runMethod demo (build_request (JRef ''agent'') ''bulk fetch'' JNull JNull
                                    (Some (JObj [(''requests'', r)])))
              = Inr ([], bulk_request r, Some (CbOk demo_backend (bulk_request r)))"
  proof -
    fix r
    have "\<not> names_inherited (get_prop (bulk_request r) ''action'')"
      by (simp add: bulk_request_def build_request_def inherited_def)
    from demo_runMethod[OF this] show "runMethod demo (build_request (JRef ''agent'') ''bulk fetch'' JNull JNull
                                    (Some (JObj [(''requests'', r)])))
              = Inr ([], bulk_request r, Some (CbOk demo_backend (bulk_request r)))"
      by (simp add: bulk_request_def)
  qed
  have m1: "request_map (get_prop (bulk_request empty_requests) ''requests'')"
    by (simp add: g request_map_def empty_requests_def)
  have e1: "all_lists_empty (get_prop (bulk_request empty_requests) ''requests'')"
    by (simp add: g all_lists_empty_def empty_requests_def)
  have m2: "request_map (get_prop (bulk_request (JObj [(''people'', JArr [JStr ''mario''])])) ''requests'')"
    by (simp add: g request_map_def)
  have e2: "\<not> all_lists_empty (get_prop (bulk_request (JObj [(''people'', JArr [JStr ''mario''])])) ''requests'')"
    by (simp add: g all_lists_empty_def)
  from bulkFetch_empty_fast_path[OF c rm m1] bulkFetch_empty_fast_path[OF c rm m2]
       c m1 e1 m2 e2 g
  show ?thesis by simp
qed

lemma filter_pass_events:
  "FilterPass kind c' dn' x fs \<in> set (filter_pass kind0 filters c dn d (\<lambda>(error, d'). [CallbackCalled [V error, V d']]))
   \<Longrightarrow> x = d"
  by (auto simp: filter_pass_def split: prod.splits option.splits)

text \<open>
  Claim C10. For a connected agent with nothing else queued, let the chain of a
  \<^verbatim>\<open>fetch\<close> complete and the backend answer without error. If the backend's snapshot
  is falsy, the trace after the chain is the backend call and the callback with no
  error and that value: no filter pass ran. Any filter pass of a \<^verbatim>\<open>fetch\<close> runs
  on a snapshot that exists, the one the backend returned.
\<close>

theorem fetch_missing_snapshot:
  assumes "connectCalled st" "pending st = []"
      and "runMethod m (build_request (JRef ''agent'') ''fetch'' collection docName None)
             = Inr (called, request', Some (CbOk be action))"
      and "be_fetch be (get_prop action ''collection'') (get_prop action ''docName'') = (err, d)"
      and "\<not> truthy err"
  shows "(\<not> truthy d \<longrightarrow>
            then_tick m (fetch st collection docName) =
              Inr (emit (map MiddlewareCalled called @
                         [BackendCalled ''fetch'' [get_prop action ''collection'', get_prop action ''docName''],
                          CallbackCalled [V JNull, V d]]) st)) \<and>
         (\<forall>kind c' dn' x fs.
            FilterPass kind c' dn' x fs \<in> set (fetch_cb m collection docName (CbOk be action)) \<longrightarrow>
            truthy d \<and> x = d)"
proof -
  have tt: "then_tick m (fetch st collection docName) =
              apply_cont m (KFetch collection docName) (CbOk be action) (emit (map MiddlewareCalled called) st)"
    unfolding fetch_def using then_tick_op[OF assms(1,2,3)] .
  have a: "\<not> truthy d \<longrightarrow>
            then_tick m (fetch st collection docName) =
              Inr (emit (map MiddlewareCalled called @
                         [BackendCalled ''fetch'' [get_prop action ''collection'', get_prop action ''docName''],
                          CallbackCalled [V JNull, V d]]) st)"
    using tt assms(4,5) by (simp add: fetch_cb_def emit_def)
  have b: "\<forall>kind c' dn' x fs.
            FilterPass kind c' dn' x fs \<in> set (fetch_cb m collection docName (CbOk be action)) \<longrightarrow>
            truthy d \<and> x = d"
    using assms(4,5)
    by (auto simp: fetch_cb_def Let_def dest: filter_pass_events split: if_splits)
  from a b show ?thesis by blast
qed

theorem fetch_missing_snapshot_witness:
  "connectCalled connected \<and> pending connected = [] \<and>
   be_fetch demo_backend (JStr ''people'') (JStr ''ghost'') = (JNull, JNull) \<and>
   \<not> truthy JNull \<and>
   then_tick demo (fetch connected (JStr ''people'') (JStr ''ghost'')) =
     Inr (emit [BackendCalled ''fetch'' [JStr ''people'', JStr ''ghost''],
                CallbackCalled [V JNull, V JNull]] connected)"
proof -
  have c: "connectCalled connected" "pending connected = []"
    by (simp_all add: connected_def UserAgent_def)
  let ?req = "build_request (JRef ''agent'') ''fetch'' (JStr ''people'') (JStr ''ghost'') None"
  have ni: "\<not> names_inherited (get_prop ?req ''action'')"
    by (simp add: build_request_def inherited_def)
  have rm: "runMethod demo ?req = Inr ([], ?req, Some (CbOk demo_backend ?req))"
    using ni by (rule demo_runMethod)
  have g: "get_prop ?req ''collection'' = JStr ''people''" "get_prop ?req ''docName'' = JStr ''ghost''"
    by (simp_all add: build_request_def)
  have b: "be_fetch demo_backend (JStr ''people'') (JStr ''ghost'') = (JNull, JNull)"
    by (simp add: demo_backend_def)
  have b': "be_fetch demo_backend (get_prop ?req ''collection'') (get_prop ?req ''docName'') = (JNull, JNull)"
    using b g by simp
  have t: "\<not> truthy JNull" by simp
  from fetch_missing_snapshot[OF c rm b' t] c b g show ?thesis by simp
qed

section \<open>Which arguments reach the backend and the filters\<close>

text \<open>
  The backend call of \<^verbatim>\<open>getOps\<close> takes the names from the request and the bounds from the
  caller.
\<close>

lemma getOps_cb_backend_call:
  "\<exists>evs. getOps_cb m collection docName start end (CbOk be action) =
     BackendCalled ''getOps'' [get_prop action ''collection'', get_prop action ''docName'', start, end] # evs"
  by (simp add: getOps_cb_def split: prod.splits)

text \<open>
  Claim C4 fails for \<^verbatim>\<open>getOps\<close>. With a middleware that rewrites the collection to
  \<^verbatim>\<open>archive\<close> and the lower bound to 5, \<^verbatim>\<open>getOps('docs', 'a', 0, 10)\<close> calls the
  backend with the rewritten collection but the caller's bounds 0 and 10, and runs the
  op filters under the caller's collection \<^verbatim>\<open>docs\<close>.
\<close>

theorem getOps_ignores_rewrite:
  "get_prop (redirect get_ops_request) ''collection'' = JStr ''archive'' \<and>
   get_prop (redirect get_ops_request) ''start'' = JNum 5 \<and>
   then_tick demo_redirect (getOps connected (JStr ''docs'') (JStr ''a'') (JNum 0) (JNum 10)) =
     Inr (emit [MiddlewareCalled (Sync redirect),
                BackendCalled ''getOps'' [JStr ''archive'', JStr ''a'', JNum 0, JNum 10],
                FilterPass Op (JStr ''docs'') (JStr ''a'') (JArr [JObj [(''op'', JStr ''ins'')]]) [cheat_filter],
                CallbackCalled [V JUndefined, V (JArr [JObj [(''op'', JStr ''ins'')]])]] connected)"
  by (simp add: then_tick_def getOps_def agent_trigger_def trigger_def tick_def runMethod_def
                build_request_def get_ops_request_def demo_redirect_def global_list_def emit_def
                connected_def UserAgent_def redirect_def getOps_cb_def filter_pass_def runFilters_def
                filter_iterator_def demo_def filterOps_def filter_doc_def Middleware_def
                demo_backend_def cheat_filter_def inherited_def)

end
